theory Spec2Isabelle
  imports
    Main
    "HOL-Library.Multiset"
    "HOL-Library.Product_Lexorder"
    "HOL-Library.List_Lexorder"
    "HOL-Library.Sublist"
begin

section \<open>The lexicon database service\<close>

text \<open>
  A shallow embedding of the persistence layer of the Hebrew lexicon extractor: the
  class \<^verbatim>\<open>DatabaseService\<close> (services/db.ts), the helper \<^verbatim>\<open>isSqliteFile\<close>, the
  enrichment step of \<^verbatim>\<open>handleFilesSelected\<close> (App.tsx) and the disk server (server/index.js).

  The service drives an embedded SQL engine (sql.js, a build of SQLite) through SQL text.
  The engine is modelled relationally: a database file holds an optional table
  \<^verbatim>\<open>entries\<close> (its columns as they are declared, its primary key, and its rows in rowid
  order) and an optional table \<^verbatim>\<open>strongs\<close>. Each SQL statement the service issues is one
  function on that model, failing where the engine fails on the database's state or on
  the values bound: a file that is not a database, a missing table or column, a column
  that exists already, a bound value of a type the engine cannot bind, more parameters
  than a statement may have. The engine knows a column by its name without regard to the
  case of ASCII letters; the service's own code compares names exactly.

  The values of the model are \<^verbatim>\<open>NULL\<close>, integers and text. Tables that hold values of the
  classes \<^verbatim>\<open>REAL\<close> and \<^verbatim>\<open>BLOB\<close>, and declarations other than the type, the default and
  a primary key of one column (constraints \<^verbatim>\<open>NOT NULL\<close>, \<^verbatim>\<open>CHECK\<close> and \<^verbatim>\<open>UNIQUE\<close>, keys of
  several columns, the key \<^verbatim>\<open>INTEGER PRIMARY KEY\<close> that names the rowid, unique indexes,
  collations, triggers, views), are outside the model; so are the limits on the length
  of a statement or of a text and on memory. (The column \<^verbatim>\<open>isRoot\<close> is declared
  \<^verbatim>\<open>NOT NULL\<close> with a default; no statement of the service stores \<^verbatim>\<open>NULL\<close> in it.)
\<close>

subsection \<open>Values\<close>

text \<open>
  Text is a list of Unicode scalar values, the code points of a well-formed string
  (a string with an unpaired surrogate is outside the model); names of columns, paths and
  log lines are ASCII.
\<close>

type_synonym utext = "nat list"

datatype sqlval = Null | Integer int | Text utext

datatype jsval = JUndefined | JNull | JNum int | JStr utext | JBool bool

type_synonym jsobj = "(string \<times> jsval) list"

datatype error =
    NotADatabase
  | NoSuchTable string
  | NoSuchColumn string
  | DuplicateColumn string
  | UnknownBindType
  | TooManyVariables
  | TooManyColumns
  | TransactionActive
  | NoTransaction
  | SqlJsLoadFailed

datatype level = Error | Warn | Info | Debug

subsection \<open>Entries (types.ts)\<close>

datatype entry_status = Valid | Invalid | Unchecked

text \<open>
  \<^verbatim>\<open>LexiconEntry\<close>. A field is \<open>None\<close> when the property is absent (\<^verbatim>\<open>undefined\<close>). The
  interface declares \<^verbatim>\<open>id\<close>, \<^verbatim>\<open>hebrewWord\<close>, \<^verbatim>\<open>partOfSpeech\<close> and \<^verbatim>\<open>definition\<close> as required,
  but the entries are parsed from the extraction service's JSON, whose schema requires
  only \<^verbatim>\<open>hebrewWord\<close>, \<^verbatim>\<open>hebrewConsonantal\<close> and \<^verbatim>\<open>definition\<close>, so at run time these can be
  absent as well.
\<close>

record entry =
  id_entry :: "utext option"
  hebrewWord :: "utext option"
  hebrewConsonantal :: "utext option"
  transliteration :: "utext option"
  partOfSpeech :: "utext option"
  definition_entry :: "utext option"
  root :: "utext option"
  isRoot :: "bool option"
  strongsNumbers :: "utext option"
  sourcePage :: "utext option"
  sourceUrl :: "utext option"
  dateAdded :: "int option"
  status :: "entry_status option"
  validationIssue :: "utext option"

subsection \<open>Database files and the engine\<close>

text \<open>
  The type affinity that the declared type of a column gives it: \<^verbatim>\<open>TEXT\<close>; \<^verbatim>\<open>INTEGER\<close>
  (the engine treats \<^verbatim>\<open>NUMERIC\<close> alike); or none, for a column declared without a type.
  A column definition is modelled by the affinity and the default it declares.
\<close>

datatype affinity = TextAffinity | IntegerAffinity | NoAffinity

type_synonym columnDef = "affinity \<times> sqlval"

text \<open>
  A table: its columns in the order of their declaration, each a name with its
  definition; its rows in the order of their rowids; and the column declared
  \<^verbatim>\<open>PRIMARY KEY\<close>, if there is one.
\<close>

record table =
  columns :: "(string \<times> columnDef) list"
  rows :: "sqlval list list"
  primaryKey :: "string option"

text \<open>
  Modelled from the spec: the table \<^verbatim>\<open>strongs\<close> of the reference file, which this
  repository reads and does not create, has the columns \<^verbatim>\<open>lemma\<close> (text) and
  \<^verbatim>\<open>number\<close> (text); a row is the pair of the two.
\<close>

record database =
  entries :: "table option"
  strongs :: "(utext \<times> utext) list option"

text \<open>
  A byte blob is either a well-formed database file or any other byte string. The engine
  opens both without complaint (it reads the file lazily); on the second kind every
  statement fails. Serialising the engine gives its file back, so one type serves for
  blobs and for opened engines.
\<close>

datatype image = Raw string | Sqlite database

definition SQLITE_HEADER :: string where
  "SQLITE_HEADER = ''SQLite format 3'' @ [CHR 0x00]"

text \<open>The leading bytes of a blob; a well-formed database file begins with the header.\<close>

fun leading_bytes :: "image \<Rightarrow> string" where
  "leading_bytes (Raw bs) = bs"
| "leading_bytes (Sqlite d) = SQLITE_HEADER"

definition isSqliteFile :: "image option \<Rightarrow> bool" where
  "isSqliteFile buffer =
     (case buffer of
        None \<Rightarrow> False
      | Some b \<Rightarrow>
          (let bytes = leading_bytes b in
           if length bytes < length SQLITE_HEADER then False
           else take (length SQLITE_HEADER) bytes = SQLITE_HEADER))"

definition db_export :: "image \<Rightarrow> image" where
  "db_export img = img"

definition columnNames :: "table \<Rightarrow> string list" where
  "columnNames t = map fst (columns t)"

definition cell :: "table \<Rightarrow> sqlval list \<Rightarrow> string \<Rightarrow> sqlval option" where
  "cell t r c = map_of (zip (columnNames t) r) c"

definition cellOrNull :: "table \<Rightarrow> string \<Rightarrow> sqlval list \<Rightarrow> sqlval" where
  "cellOrNull t c r = (case cell t r c of None \<Rightarrow> Null | Some v \<Rightarrow> v)"

definition affinityOf :: "table \<Rightarrow> string \<Rightarrow> affinity" where
  "affinityOf t c = (case map_of (columns t) c of None \<Rightarrow> NoAffinity | Some def \<Rightarrow> fst def)"

text \<open>
  How the engine resolves a column name in a statement: without regard to the case of
  ASCII letters. No table has two columns whose names are equal in that sense, so at most
  one column answers to a name.
\<close>

definition asciiLower :: "char \<Rightarrow> char" where
  "asciiLower c =
     (case map_of (zip ''ABCDEFGHIJKLMNOPQRSTUVWXYZ'' ''abcdefghijklmnopqrstuvwxyz'') c of
        None \<Rightarrow> c
      | Some l \<Rightarrow> l)"

definition sameName :: "string \<Rightarrow> string \<Rightarrow> bool" where
  "sameName a b = (map asciiLower a = map asciiLower b)"

definition sqlColumn :: "table \<Rightarrow> string \<Rightarrow> string option" where
  "sqlColumn t c =
     (if c \<in> set (columnNames t) then Some c else find (sameName c) (columnNames t))"

subsection \<open>The service and its environment\<close>

datatype load_source = Server | IndexedDB | PrebuiltFile | Fresh | InvalidCache

text \<open>
  The fields of \<^verbatim>\<open>DatabaseService\<close>. \<open>SQL\<close> tells whether the sql.js module is loaded;
  \<open>txn\<close> is the engine's open transaction, the snapshot that \<^verbatim>\<open>ROLLBACK\<close> restores.
\<close>

record service =
  db :: "image option"
  txn :: "image option"
  SQL :: bool
  isReady :: bool
  loadSource :: "load_source option"
  strongsDb :: "image option"
  serverAvailable :: bool

datatype fetch_result = NetworkError | Response bool image

text \<open>
  What the service acts on: the sql.js download, the clock, the browser's persistent
  cache (localforage, key \<^verbatim>\<open>sqlite_binary\<close>), the disk server and its file, the static
  files of the web root, the console, and the downloads offered to the user.
  \<open>pending\<close> holds the images handed to calls of \<^verbatim>\<open>save()\<close> that were not awaited: their
  cache write and server push run after the caller has returned.
\<close>

record world =
  sqljs_loads :: bool
  now :: int
  cache :: "image option"
  server_up :: bool
  server_file :: "image option"
  static :: "(string \<times> fetch_result) list"
  pending :: "image list"
  downloads :: "image list"
  console :: "(level \<times> string) list"

definition logMsg :: "level \<Rightarrow> string \<Rightarrow> world \<Rightarrow> world" where
  "logMsg l m w = w\<lparr>console := console w @ [(l, m)]\<rparr>"

definition initialService :: service where
  "initialService =
     \<lparr>db = None, txn = None, SQL = False, isReady = False, loadSource = None,
      strongsDb = None, serverAvailable = False\<rparr>"

subsection \<open>The disk server (server/index.js)\<close>

definition serverGetStatus :: "world \<Rightarrow> fetch_result" where
  "serverGetStatus w = (if server_up w then Response True (Raw []) else NetworkError)"

definition serverGetLexicon :: "world \<Rightarrow> fetch_result" where
  "serverGetLexicon w =
     (if server_up w then
        (case server_file w of
           Some file \<Rightarrow> Response True file
         | None \<Rightarrow> Response False (Raw []))
      else NetworkError)"

definition serverPostLexicon :: "image \<Rightarrow> world \<Rightarrow> fetch_result \<times> world" where
  "serverPostLexicon fileBody w =
     (if server_up w then
        (if length (leading_bytes fileBody) = 0 then (Response False (Raw []), w)
         else (Response True (Raw []), w\<lparr>server_file := Some fileBody\<rparr>))
      else (NetworkError, w))"

definition fetchStatic :: "string \<Rightarrow> world \<Rightarrow> fetch_result" where
  "fetchStatic path w = (case map_of (static w) path of None \<Rightarrow> NetworkError | Some r \<Rightarrow> r)"

subsection \<open>Server probe, push and save\<close>

definition checkServer :: "world \<Rightarrow> bool" where
  "checkServer w = (case serverGetStatus w of NetworkError \<Rightarrow> False | Response ok _ \<Rightarrow> ok)"

definition pushToServer :: "service \<Rightarrow> world \<Rightarrow> bool \<times> world" where
  "pushToServer s w =
     (case db s of
        None \<Rightarrow> (False, w)
      | Some img \<Rightarrow>
          if \<not> serverAvailable s then (False, w)
          else
            (let binary = db_export img in
             case serverPostLexicon binary w of
               (NetworkError, w') \<Rightarrow> (False, logMsg Debug ''Failed to push to server:'' w')
             | (Response ok _, w') \<Rightarrow> (ok, w')))"

text \<open>What \<^verbatim>\<open>save()\<close> does after it has serialised the engine into \<open>data\<close>.\<close>

definition persist :: "service \<Rightarrow> image \<Rightarrow> world \<Rightarrow> world" where
  "persist s data w =
     (let w1 = w\<lparr>cache := Some data\<rparr> in
      if serverAvailable s then snd (pushToServer s w1) else w1)"

text \<open>\<^verbatim>\<open>await this.save()\<close>: the caller resumes when the cache write and the push are done.\<close>

definition save :: "service \<Rightarrow> world \<Rightarrow> world" where
  "save s w = (case db s of None \<Rightarrow> w | Some img \<Rightarrow> persist s (db_export img) w)"

text \<open>
  \<^verbatim>\<open>this.save()\<close> with no \<^verbatim>\<open>await\<close>, from a synchronous method: the engine is serialised at
  once, the rest of \<^verbatim>\<open>save\<close> is left to the event loop.
\<close>

definition save_unawaited :: "service \<Rightarrow> world \<Rightarrow> world" where
  "save_unawaited s w =
     (case db s of None \<Rightarrow> w | Some img \<Rightarrow> w\<lparr>pending := pending w @ [db_export img]\<rparr>)"


subsection \<open>Schema and migrations\<close>

definition schemaColumns :: "(string \<times> columnDef) list" where
  "schemaColumns =
     [(''id'', TextAffinity, Null),
      (''hebrewWord'', TextAffinity, Null),
      (''hebrewConsonantal'', TextAffinity, Null),
      (''transliteration'', TextAffinity, Null),
      (''partOfSpeech'', TextAffinity, Null),
      (''definition'', TextAffinity, Null),
      (''root'', TextAffinity, Null),
      (''isRoot'', IntegerAffinity, Integer 0),
      (''strongsNumbers'', TextAffinity, Text []),
      (''sourcePage'', TextAffinity, Null),
      (''sourceUrl'', TextAffinity, Null),
      (''dateAdded'', IntegerAffinity, Null)]"

text \<open>The table that \<^verbatim>\<open>CREATE TABLE entries (id TEXT PRIMARY KEY, ...)\<close> creates.\<close>

definition freshTable :: table where
  "freshTable = \<lparr>columns = schemaColumns, rows = [], primaryKey = Some ''id''\<rparr>"

text \<open>\<^verbatim>\<open>CREATE TABLE IF NOT EXISTS entries (...)\<close> and its two indexes.\<close>

definition create_table_entries :: "image \<Rightarrow> error + image" where
  "create_table_entries img =
     (case img of
        Raw bs \<Rightarrow> Inl NotADatabase
      | Sqlite d \<Rightarrow>
          (case entries d of
             Some t \<Rightarrow> Inr (Sqlite d)
           | None \<Rightarrow> Inr (Sqlite (d\<lparr>entries := Some freshTable\<rparr>))))"

text \<open>\<^verbatim>\<open>PRAGMA table_info(entries)\<close>: the column names, none when there is no such table.\<close>

definition pragma_table_info :: "image \<Rightarrow> error + string list" where
  "pragma_table_info img =
     (case img of
        Raw bs \<Rightarrow> Inl NotADatabase
      | Sqlite d \<Rightarrow> (case entries d of None \<Rightarrow> Inr [] | Some t \<Rightarrow> Inr (columnNames t)))"

text \<open>The largest number of columns that a table may have (\<^verbatim>\<open>SQLITE_MAX_COLUMN\<close>).\<close>

definition maxColumns :: nat where
  "maxColumns = 2000"

text \<open>
  \<^verbatim>\<open>ALTER TABLE entries ADD COLUMN name def\<close>. The engine refuses the statement when the
  table is full (\<^verbatim>\<open>too many columns\<close>) and when it has a column that answers to the name
  (\<^verbatim>\<open>duplicate column name\<close>); otherwise the column comes last, and the rows already
  stored take its default. The name is spliced into the statement as it is; it is taken
  to be an identifier, as are the two names that the service passes.
\<close>

definition alter_table_add_column :: "string \<Rightarrow> columnDef \<Rightarrow> image \<Rightarrow> error + image" where
  "alter_table_add_column c def img =
     (case img of
        Raw bs \<Rightarrow> Inl NotADatabase
      | Sqlite d \<Rightarrow>
          (case entries d of
             None \<Rightarrow> Inl (NoSuchTable ''entries'')
           | Some t \<Rightarrow>
               if maxColumns \<le> length (columns t) then Inl TooManyColumns
               else if sqlColumn t c \<noteq> None then Inl (DuplicateColumn c)
               else Inr (Sqlite (d\<lparr>entries :=
                      Some (t\<lparr>columns := columns t @ [(c, def)],
                              rows := map (\<lambda>r. r @ [snd def]) (rows t)\<rparr>)\<rparr>))))"

text \<open>The test \<^verbatim>\<open>columnNames.includes(columnName)\<close> compares the names exactly.\<close>

definition ensureColumn :: "string \<Rightarrow> columnDef \<Rightarrow> service \<Rightarrow> error + bool \<times> service" where
  "ensureColumn columnName columnDef s =
     (case db s of
        None \<Rightarrow> Inr (False, s)
      | Some img \<Rightarrow>
          (case pragma_table_info img of
             Inl e \<Rightarrow> Inl e
           | Inr info \<Rightarrow>
               if info = [] then Inr (False, s)
               else if columnName \<in> set info then Inr (False, s)
               else
                 (case alter_table_add_column columnName columnDef img of
                    Inl e \<Rightarrow> Inl e
                  | Inr img' \<Rightarrow> Inr (True, s\<lparr>db := Some img'\<rparr>))))"

definition ensureIsRootColumn :: "service \<Rightarrow> error + bool \<times> service" where
  "ensureIsRootColumn s = ensureColumn ''isRoot'' (IntegerAffinity, Integer 0) s"

definition ensureStrongsColumn :: "service \<Rightarrow> error + bool \<times> service" where
  "ensureStrongsColumn s = ensureColumn ''strongsNumbers'' (TextAffinity, Text []) s"

definition initSchema :: "service \<Rightarrow> world \<Rightarrow> error + service \<times> world" where
  "initSchema s w =
     (case db s of
        None \<Rightarrow> Inr (s, w)
      | Some img \<Rightarrow>
          (case create_table_entries img of
             Inl e \<Rightarrow> Inl e
           | Inr img' \<Rightarrow> (let s' = s\<lparr>db := Some img'\<rparr> in Inr (s', save_unawaited s' w))))"

subsection \<open>Statements on the table of entries\<close>

text \<open>
  \<^verbatim>\<open>bindValue\<close> of sql.js: strings, numbers, booleans and \<^verbatim>\<open>null\<close> are bound; for any
  other type of value (\<^verbatim>\<open>undefined\<close>) it throws. A string is bound with its length, so a
  character U+0000 in it is stored like any other. The numbers of the model are integers.
\<close>

fun bindValue :: "jsval \<Rightarrow> error + sqlval" where
  "bindValue (JStr v) = Inr (Text v)"
| "bindValue (JNum n) = Inr (Integer n)"
| "bindValue (JBool b) = Inr (Integer (if b then 1 else 0))"
| "bindValue JNull = Inr Null"
| "bindValue JUndefined = Inl UnknownBindType"

fun bindAll :: "jsval list \<Rightarrow> error + sqlval list" where
  "bindAll [] = Inr []"
| "bindAll (v # vs) =
     (case bindValue v of
        Inl e \<Rightarrow> Inl e
      | Inr x \<Rightarrow> (case bindAll vs of Inl e \<Rightarrow> Inl e | Inr xs \<Rightarrow> Inr (x # xs)))"

definition sql_begin :: "service \<Rightarrow> error + service" where
  "sql_begin s = (case txn s of Some snapshot \<Rightarrow> Inl TransactionActive | None \<Rightarrow> Inr (s\<lparr>txn := db s\<rparr>))"

definition sql_commit :: "service \<Rightarrow> error + service" where
  "sql_commit s = (case txn s of None \<Rightarrow> Inl NoTransaction | Some snapshot \<Rightarrow> Inr (s\<lparr>txn := None\<rparr>))"

definition sql_rollback :: "service \<Rightarrow> error + service" where
  "sql_rollback s =
     (case txn s of
        None \<Rightarrow> Inl NoTransaction
      | Some snapshot \<Rightarrow> Inr (s\<lparr>db := Some snapshot, txn := None\<rparr>))"

definition insertColumns :: "string list" where
  "insertColumns =
     [''id'', ''hebrewWord'', ''hebrewConsonantal'', ''transliteration'', ''partOfSpeech'',
      ''definition'', ''root'', ''isRoot'', ''strongsNumbers'', ''sourcePage'', ''sourceUrl'',
      ''dateAdded'']"

text \<open>
  Preparing the \<^verbatim>\<open>INSERT OR REPLACE\<close> statement: the table must exist, and each of the
  twelve names must be that of a column.
\<close>

definition prepare_insert :: "image \<Rightarrow> error + table" where
  "prepare_insert img =
     (case img of
        Raw bs \<Rightarrow> Inl NotADatabase
      | Sqlite d \<Rightarrow>
          (case entries d of
             None \<Rightarrow> Inl (NoSuchTable ''entries'')
           | Some t \<Rightarrow>
               (case filter (\<lambda>c. sqlColumn t c = None) insertColumns of
                  [] \<Rightarrow> Inr t
                | c # cs \<Rightarrow> Inl (NoSuchColumn c))))"

text \<open>
  What a column makes of a value that is stored in it. A column of affinity \<^verbatim>\<open>TEXT\<close>
  stores a number as its text; sql.js binds a number as a 32-bit integer when it is one
  and as a double otherwise, and the text of a double carries a decimal point (a double of
  more than fifteen digits, which the engine writes with an exponent, is not met: the
  numbers bound are 0, 1 and the time in milliseconds). A column of affinity \<^verbatim>\<open>INTEGER\<close>
  stores a text that spells an integer as that integer (a text that spells another number
  would be stored as \<^verbatim>\<open>REAL\<close>, a class outside the model, and is kept as text here).
\<close>

fun digits :: "nat \<Rightarrow> utext" where
  "digits n = (if n < 10 then [48 + n] else digits (n div 10) @ [48 + n mod 10])"

definition decimal :: "int \<Rightarrow> utext" where
  "decimal i = (if i < 0 then 45 # digits (nat (- i)) else digits (nat i))"

definition numberText :: "int \<Rightarrow> utext" where
  "numberText i =
     (if - (2 ^ 31) \<le> i \<and> i < 2 ^ 31 then decimal i else decimal i @ [46, 48])"

definition isSpace :: "nat \<Rightarrow> bool" where
  "isSpace c = (c \<in> {9, 10, 11, 12, 13, 32})"

definition isDigit :: "nat \<Rightarrow> bool" where
  "isDigit c = (48 \<le> c \<and> c \<le> 57)"

definition integerLiteral :: "utext \<Rightarrow> int option" where
  "integerLiteral v =
     (let u = rev (dropWhile isSpace (rev (dropWhile isSpace v)));
          signed = (u \<noteq> [] \<and> (hd u = 45 \<or> hd u = 43));
          ds = (if signed then tl u else u);
          n = foldl (\<lambda>n c. 10 * n + int (c - 48)) 0 ds;
          i = (if signed \<and> hd u = 45 then - n else n)
      in if ds \<noteq> [] \<and> list_all isDigit ds \<and> - (2 ^ 63) \<le> i \<and> i < 2 ^ 63 then Some i
         else None)"

fun applyAffinity :: "affinity \<Rightarrow> sqlval \<Rightarrow> sqlval" where
  "applyAffinity NoAffinity v = v"
| "applyAffinity TextAffinity (Integer i) = Text (numberText i)"
| "applyAffinity TextAffinity v = v"
| "applyAffinity IntegerAffinity (Text v) =
     (case integerLiteral v of None \<Rightarrow> Text v | Some i \<Rightarrow> Integer i)"
| "applyAffinity IntegerAffinity v = v"

text \<open>
  One row written by \<^verbatim>\<open>INSERT OR REPLACE\<close>. A column that one of the twelve names of the
  statement resolves to takes the value bound for that name, as the column stores it; any
  other column takes its default. When the table has a primary key and the new row holds
  a value other than \<^verbatim>\<open>NULL\<close> in it, the rows that hold the same value there are
  replaced. The new row comes last.
\<close>

definition boundFor :: "table \<Rightarrow> sqlval list \<Rightarrow> string \<Rightarrow> sqlval option" where
  "boundFor t vals c = map_of (zip (map (sqlColumn t) insertColumns) vals) (Some c)"

definition newRow :: "table \<Rightarrow> sqlval list \<Rightarrow> sqlval list" where
  "newRow t vals =
     map (\<lambda>(c, def).
            case boundFor t vals c of
              None \<Rightarrow> snd def
            | Some v \<Rightarrow> applyAffinity (fst def) v)
         (columns t)"

definition conflicts :: "table \<Rightarrow> sqlval list \<Rightarrow> sqlval list \<Rightarrow> bool" where
  "conflicts t new r =
     (case primaryKey t of
        None \<Rightarrow> False
      | Some k \<Rightarrow>
          (case cell t new k of
             None \<Rightarrow> False
           | Some v \<Rightarrow> v \<noteq> Null \<and> cell t r k = Some v))"

definition insert_or_replace :: "sqlval list \<Rightarrow> table \<Rightarrow> table" where
  "insert_or_replace vals t =
     (let new = newRow t vals in
      t\<lparr>rows := filter (\<lambda>r. \<not> conflicts t new r) (rows t) @ [new]\<rparr>)"

text \<open>\<^verbatim>\<open>stmt.run(values)\<close>: bind the values, then execute the statement once.\<close>

definition stmt_run :: "jsval list \<Rightarrow> service \<Rightarrow> error + service" where
  "stmt_run params s =
     (case bindAll params of
        Inl e \<Rightarrow> Inl e
      | Inr vals \<Rightarrow>
          (case db s of
             Some (Sqlite d) \<Rightarrow>
               (case entries d of
                  Some t \<Rightarrow> Inr (s\<lparr>db := Some (Sqlite (d\<lparr>entries := Some (insert_or_replace vals t)\<rparr>))\<rparr>)
                | None \<Rightarrow> Inl (NoSuchTable ''entries''))
           | _ \<Rightarrow> Inl NotADatabase))"

definition required :: "utext option \<Rightarrow> jsval" where
  "required v = (case v of None \<Rightarrow> JUndefined | Some x \<Rightarrow> JStr x)"

text \<open>\<^verbatim>\<open>v || ''\<close> on an optional string.\<close>

definition orEmpty :: "utext option \<Rightarrow> jsval" where
  "orEmpty v = (case v of None \<Rightarrow> JStr [] | Some x \<Rightarrow> JStr x)"

definition entryParams :: "entry \<Rightarrow> int \<Rightarrow> jsval list" where
  "entryParams e t =
     [required (id_entry e),
      required (hebrewWord e),
      orEmpty (hebrewConsonantal e),
      orEmpty (transliteration e),
      required (partOfSpeech e),
      required (definition_entry e),
      orEmpty (root e),
      JNum (if isRoot e = Some True then 1 else 0),
      orEmpty (strongsNumbers e),
      orEmpty (sourcePage e),
      orEmpty (sourceUrl e),
      JNum t]"

text \<open>
  The loop of \<^verbatim>\<open>addEntries\<close>. When a row throws, the rows before it have been written to
  the engine: the state at the throw is returned with the error.
\<close>

fun runEntries :: "int \<Rightarrow> entry list \<Rightarrow> service \<Rightarrow> error option \<times> service" where
  "runEntries t [] s = (None, s)"
| "runEntries t (e # es) s =
     (case stmt_run (entryParams e t) s of
        Inl err \<Rightarrow> (Some err, s)
      | Inr s' \<Rightarrow> runEntries t es s')"

text \<open>The \<^verbatim>\<open>catch\<close> block of \<^verbatim>\<open>addEntries\<close>: log, roll back, swallow a failing rollback.\<close>

definition addEntries_catch :: "service \<Rightarrow> world \<Rightarrow> error option \<times> service \<times> world" where
  "addEntries_catch s w =
     (let w' = logMsg Error ''Error adding entries:'' w in
      case sql_rollback s of
        Inl e \<Rightarrow> (None, s, w')
      | Inr s' \<Rightarrow> (None, s', w'))"

text \<open>
  The first component of a result is the exception that reaches the caller, \<open>None\<close>
  when the call returns normally.
\<close>

definition addEntries :: "entry list \<Rightarrow> service \<Rightarrow> world \<Rightarrow> error option \<times> service \<times> world" where
  "addEntries es s w =
     (case db s of
        None \<Rightarrow> (None, s, w)
      | Some img0 \<Rightarrow>
          (case sql_begin s of
             Inl e \<Rightarrow> addEntries_catch s w
           | Inr s1 \<Rightarrow>
               (case prepare_insert img0 of
                  Inl e \<Rightarrow> addEntries_catch s1 w
                | Inr t \<Rightarrow>
                    (case runEntries (now w) es s1 of
                       (Some e, s2) \<Rightarrow> addEntries_catch s2 w
                     | (None, s2) \<Rightarrow>
                         (case sql_commit s2 of
                            Inl e \<Rightarrow> addEntries_catch s2 w
                          | Inr s3 \<Rightarrow> (None, s3, save_unawaited s3 w))))))"

text \<open>
  The largest number of parameters that a statement may have
  (\<^verbatim>\<open>SQLITE_MAX_VARIABLE_NUMBER\<close> in the engine's build).
\<close>

definition maxVariables :: nat where
  "maxVariables = 32766"

text \<open>
  \<^verbatim>\<open>DELETE FROM entries WHERE id IN (?, ..., ?)\<close> with the ids bound, one parameter for
  each id: the engine refuses a statement with more parameters than it allows. A bound id
  is compared with the value in the column as the column would store it.
\<close>

definition delete_where_id_in :: "utext list \<Rightarrow> image \<Rightarrow> error + image" where
  "delete_where_id_in ids img =
     (case img of
        Raw bs \<Rightarrow> Inl NotADatabase
      | Sqlite d \<Rightarrow>
          (case entries d of
             None \<Rightarrow> Inl (NoSuchTable ''entries'')
           | Some t \<Rightarrow>
               if length ids > maxVariables then Inl TooManyVariables
               else
                 (case sqlColumn t ''id'' of
                    None \<Rightarrow> Inl (NoSuchColumn ''id'')
                  | Some c \<Rightarrow>
                      Inr (Sqlite (d\<lparr>entries :=
                        Some (t\<lparr>rows :=
                          filter (\<lambda>r. cellOrNull t c r \<notin>
                                        set (map (\<lambda>i. applyAffinity (affinityOf t c) (Text i)) ids))
                                 (rows t)\<rparr>)\<rparr>)))))"

definition deleteEntries :: "utext list \<Rightarrow> service \<Rightarrow> world \<Rightarrow> error option \<times> service \<times> world" where
  "deleteEntries ids s w =
     (case db s of
        None \<Rightarrow> (None, s, w)
      | Some img \<Rightarrow>
          if length ids = 0 then (None, s, w)
          else
            (case delete_where_id_in ids img of
               Inl e \<Rightarrow> (None, s, logMsg Error ''Error deleting entries:'' w)
             | Inr img' \<Rightarrow> (let s' = s\<lparr>db := Some img'\<rparr> in (None, s', save_unawaited s' w))))"

subsection \<open>Queries\<close>

text \<open>
  The engine's order on values: \<^verbatim>\<open>NULL\<close> first, then numbers, then text compared code
  point by code point.
\<close>

fun order_key :: "sqlval \<Rightarrow> nat \<times> int \<times> utext" where
  "order_key Null = (0, 0, [])"
| "order_key (Integer i) = (1, i, [])"
| "order_key (Text v) = (2, 0, v)"

text \<open>For \<^verbatim>\<open>LIKE\<close> the engine renders an integer as its decimal text.\<close>

definition fold_case :: "nat \<Rightarrow> nat" where
  "fold_case c = (if 65 \<le> c \<and> c \<le> 90 then c + 32 else c)"

text \<open>
  \<^verbatim>\<open>LIKE\<close>: \<^verbatim>\<open>%\<close> (37) matches any run of characters, \<^verbatim>\<open>_\<close> (95) any single one, and
  ASCII letters match without regard to case.
\<close>

fun sql_like :: "utext \<Rightarrow> utext \<Rightarrow> bool" where
  "sql_like [] v = (v = [])"
| "sql_like (p # ps) [] = (p = 37 \<and> sql_like ps [])"
| "sql_like (p # ps) (c # cs) =
     (if p = 37 then sql_like ps (c # cs) \<or> sql_like (p # ps) cs
      else if p = 95 then sql_like ps cs
      else fold_case p = fold_case c \<and> sql_like ps cs)"

fun like_value :: "utext \<Rightarrow> sqlval \<Rightarrow> bool" where
  "like_value pat Null = False"
| "like_value pat (Integer i) = sql_like pat (decimal i)"
| "like_value pat (Text v) = sql_like pat v"

text \<open>
  How sql.js hands a value of a result row to JavaScript. A text is read as a C string,
  which ends at its first character U+0000. A number is read as a double: an integer of
  more than 53 bits comes out rounded to the nearest double (ties to the even mantissa).
\<close>

definition readText :: "utext \<Rightarrow> utext" where
  "readText v = takeWhile (\<lambda>c. c \<noteq> 0) v"

function excessBits :: "int \<Rightarrow> nat" where
  "excessBits m = (if m < 2 ^ 53 then 0 else Suc (excessBits (m div 2)))"
  by pat_completeness auto
termination
  by (relation "measure nat") auto

declare excessBits.simps [simp del]

definition nearestDouble :: "int \<Rightarrow> int" where
  "nearestDouble i =
     (let m = \<bar>i\<bar>;
          e = excessBits m;
          q = m div 2 ^ e;
          r = m mod 2 ^ e;
          n = (if 2 ^ e < 2 * r \<or> (2 * r = 2 ^ e \<and> odd q) then (q + 1) * 2 ^ e else q * 2 ^ e)
      in if i < 0 then - n else n)"

fun toJs :: "sqlval \<Rightarrow> jsval" where
  "toJs Null = JNull"
| "toJs (Integer i) = JNum (nearestDouble i)"
| "toJs (Text v) = JStr (readText v)"

text \<open>\<^verbatim>\<open>Boolean(v)\<close>.\<close>

fun truthy :: "jsval \<Rightarrow> bool" where
  "truthy JUndefined = False"
| "truthy JNull = False"
| "truthy (JNum n) = (n \<noteq> 0)"
| "truthy (JStr v) = (v \<noteq> [])"
| "truthy (JBool b) = b"

text \<open>
  \<^verbatim>\<open>SELECT * FROM entries ORDER BY dateAdded DESC\<close>: the column names and the rows. SQL
  leaves the order of rows with equal dates open; here they keep the order of their rowids,
  as they do under the ascending order of \<open>select_by_prefix\<close>.
\<close>

definition select_all_by_date :: "image \<Rightarrow> error + string list \<times> sqlval list list" where
  "select_all_by_date img =
     (case img of
        Raw bs \<Rightarrow> Inl NotADatabase
      | Sqlite d \<Rightarrow>
          (case entries d of
             None \<Rightarrow> Inl (NoSuchTable ''entries'')
           | Some t \<Rightarrow>
               (case sqlColumn t ''dateAdded'' of
                  None \<Rightarrow> Inl (NoSuchColumn ''dateAdded'')
                | Some c \<Rightarrow>
                    Inr (columnNames t,
                         rev (sort_key (\<lambda>r. order_key (cellOrNull t c r)) (rev (rows t)))))))"

definition mapResults :: "string list \<Rightarrow> sqlval list list \<Rightarrow> jsobj list" where
  "mapResults cols vals =
     map (\<lambda>row.
            map (\<lambda>(col, v).
                   if col = ''isRoot'' then (col, JBool (truthy (toJs v)))
                   else if col = ''strongsNumbers'' then (col, toJs v)
                   else (col, toJs v))
                (zip cols row))
         vals"

definition getAllEntries :: "service \<Rightarrow> world \<Rightarrow> jsobj list \<times> world" where
  "getAllEntries s w =
     (case db s of
        None \<Rightarrow> ([], w)
      | Some img \<Rightarrow>
          (case select_all_by_date img of
             Inl e \<Rightarrow> ([], logMsg Error ''Error fetching all entries:'' w)
           | Inr (cols, vals) \<Rightarrow>
               if length vals = 0 then ([], w) else (mapResults cols vals, w)))"

text \<open>
  \<^verbatim>\<open>SELECT * FROM entries WHERE hebrewWord LIKE ? OR hebrewConsonantal LIKE ? ORDER BY
  hebrewWord ASC\<close>, the same pattern bound twice.
\<close>

definition select_by_prefix :: "utext \<Rightarrow> image \<Rightarrow> error + string list \<times> sqlval list list" where
  "select_by_prefix pat img =
     (case img of
        Raw bs \<Rightarrow> Inl NotADatabase
      | Sqlite d \<Rightarrow>
          (case entries d of
             None \<Rightarrow> Inl (NoSuchTable ''entries'')
           | Some t \<Rightarrow>
               (case sqlColumn t ''hebrewWord'' of
                  None \<Rightarrow> Inl (NoSuchColumn ''hebrewWord'')
                | Some word \<Rightarrow>
                    (case sqlColumn t ''hebrewConsonantal'' of
                       None \<Rightarrow> Inl (NoSuchColumn ''hebrewConsonantal'')
                     | Some consonantal \<Rightarrow>
                         Inr (columnNames t,
                              sort_key (\<lambda>r. order_key (cellOrNull t word r))
                                (filter (\<lambda>r. like_value pat (cellOrNull t word r)
                                            \<or> like_value pat (cellOrNull t consonantal r))
                                        (rows t)))))))"

text \<open>\<^verbatim>\<open>stmt.getAsObject()\<close> followed by \<^verbatim>\<open>mapRow\<close>.\<close>

definition getAsObject :: "string list \<Rightarrow> sqlval list \<Rightarrow> jsobj" where
  "getAsObject cols row = map (\<lambda>(col, v). (col, toJs v)) (zip cols row)"

definition mapRow :: "jsobj \<Rightarrow> jsobj" where
  "mapRow row =
     map (\<lambda>(col, v).
            if col = ''isRoot'' then (col, JBool (truthy v))
            else if col = ''strongsNumbers'' then (col, if truthy v then v else JStr [])
            else (col, v))
         row"

definition getEntriesByLetter :: "utext \<Rightarrow> service \<Rightarrow> world \<Rightarrow> jsobj list \<times> world" where
  "getEntriesByLetter letter s w =
     (case db s of
        None \<Rightarrow> ([], w)
      | Some img \<Rightarrow>
          (case select_by_prefix (letter @ [37]) img of
             Inl e \<Rightarrow> ([], logMsg Error ''Error fetching entries by letter:'' w)
           | Inr (cols, vals) \<Rightarrow> (map (\<lambda>r. mapRow (getAsObject cols r)) vals, w)))"

subsection \<open>The reference lookup\<close>



subsection \<open>Enrichment at extraction time (App.tsx)\<close>

definition is_hebrew_letter :: "nat \<Rightarrow> bool" where
  "is_hebrew_letter c = (0x5D0 \<le> c \<and> c \<le> 0x5EA)"






subsection \<open>Start-up\<close>

text \<open>\<^verbatim>\<open>new this.SQL.Database(data)\<close>: a new engine on the given file, with no open transaction.\<close>

definition openDatabase :: "image \<Rightarrow> service \<Rightarrow> service" where
  "openDatabase data s = s\<lparr>db := Some data, txn := None\<rparr>"

definition emptyDatabase :: image where
  "emptyDatabase = Sqlite \<lparr>entries = None, strongs = None\<rparr>"

definition loadFromServer :: "service \<Rightarrow> world \<Rightarrow> bool \<times> service \<times> world" where
  "loadFromServer s w =
     (case serverGetLexicon w of
        NetworkError \<Rightarrow> (False, s, logMsg Debug ''Failed to load from server:'' w)
      | Response ok buf \<Rightarrow>
          if \<not> ok then (False, s, w)
          else if \<not> isSqliteFile (Some buf)
            then (False, s, logMsg Warn ''Server returned invalid SQLite file'' w)
          else if \<not> SQL s then (False, s, logMsg Debug ''Failed to load from server:'' w)
          else (True, (openDatabase buf s)\<lparr>loadSource := Some Server\<rparr>,
                logMsg Info ''Loaded lexicon.sqlite from server'' w))"

definition loadStrongNumbersDb :: "service \<Rightarrow> world \<Rightarrow> service \<times> world" where
  "loadStrongNumbersDb s w =
     (case strongsDb s of
        Some loaded \<Rightarrow> (s, w)
      | None \<Rightarrow>
          (case fetchStatic ''/strongs.sqlite'' w of
             NetworkError \<Rightarrow> (s, logMsg Debug ''Failed to load strongs.sqlite:'' w)
           | Response ok buf \<Rightarrow>
               if \<not> ok then (s, w)
               else if \<not> isSqliteFile (Some buf)
                 then (s, logMsg Warn ''Skipping strongs.sqlite: invalid SQLite file'' w)
               else if \<not> SQL s then (s, logMsg Debug ''Failed to load strongs.sqlite:'' w)
               else (s\<lparr>strongsDb := Some buf\<rparr>, w)))"

text \<open>
  The steps of \<^verbatim>\<open>init\<close>. Each returns the exception it throws, if any, with the state
  reached; \<open>andThen\<close> runs the next step unless one was thrown.
\<close>

type_synonym outcome = "error option \<times> service \<times> world"

definition andThen :: "outcome \<Rightarrow> (service \<Rightarrow> world \<Rightarrow> outcome) \<Rightarrow> outcome" where
  "andThen r f = (case r of (Some e, s, w) \<Rightarrow> (Some e, s, w) | (None, s, w) \<Rightarrow> f s w)"

definition loadSqlJs :: "service \<Rightarrow> world \<Rightarrow> outcome" where
  "loadSqlJs s w = (if sqljs_loads w then (None, s\<lparr>SQL := True\<rparr>, w) else (Some SqlJsLoadFailed, s, w))"

text \<open>Steps 1 and 2: probe the server and, when it answers, load from it.\<close>

definition serverStep :: "service \<Rightarrow> world \<Rightarrow> outcome" where
  "serverStep s w =
     (let s1 = s\<lparr>serverAvailable := checkServer w\<rparr> in
      if serverAvailable s1 then
        (case loadFromServer s1 w of
           (loaded, s2, w2) \<Rightarrow>
             if loaded then (None, s2, logMsg Info ''Using server-backed lexicon.sqlite'' w2)
             else (None, s2, w2))
      else (None, s1, w))"

text \<open>Step 3: the cache.\<close>

definition cacheStep :: "service \<Rightarrow> world \<Rightarrow> outcome" where
  "cacheStep s w =
     (case db s of
        Some opened \<Rightarrow> (None, s, w)
      | None \<Rightarrow>
          (case cache w of
             None \<Rightarrow> (None, s, w)
           | Some savedDb \<Rightarrow>
               if isSqliteFile (Some savedDb)
                 then (None, (openDatabase savedDb s)\<lparr>loadSource := Some IndexedDB\<rparr>, w)
               else (None, s\<lparr>loadSource := Some InvalidCache\<rparr>,
                     (logMsg Warn ''Stored sqlite binary is invalid. Clearing cache.'' w)
                       \<lparr>cache := None\<rparr>)))"

definition tryPaths :: "string list" where
  "tryPaths = [''/lexicon.sqlite'', ''/prebuilt/lexicon.sqlite'']"

text \<open>Step 4: the loop over the prebuilt files; the flag is \<^verbatim>\<open>loadedFromFile\<close>.\<close>

fun tryPrebuilt :: "string list \<Rightarrow> service \<Rightarrow> world \<Rightarrow> bool \<times> service \<times> world" where
  "tryPrebuilt [] s w = (False, s, w)"
| "tryPrebuilt (path # rest) s w =
     (case fetchStatic path w of
        NetworkError \<Rightarrow> tryPrebuilt rest s (logMsg Debug (''Failed fetching '' @ path @ '':'') w)
      | Response ok buf \<Rightarrow>
          if \<not> ok then tryPrebuilt rest s w
          else if \<not> isSqliteFile (Some buf)
            then tryPrebuilt rest s
                   (logMsg Warn (''Skipping '' @ path @ '': not a valid SQLite file'') w)
          else
            (let s' = (openDatabase buf s)\<lparr>loadSource := Some PrebuiltFile\<rparr>;
                 w' = save s' w
             in (True, s', logMsg Info (''Loaded database from '' @ path) w')))"

text \<open>The download of the fresh file that is offered when no server is attached.\<close>

definition offerDownload :: "service \<Rightarrow> world \<Rightarrow> world" where
  "offerDownload s w =
     (case db s of
        None \<Rightarrow> w
      | Some img \<Rightarrow>
          logMsg Info ''A new lexicon.sqlite file was generated and downloaded.''
            (w\<lparr>downloads := downloads w @ [db_export img]\<rparr>))"

text \<open>Step 5: a fresh database.\<close>

definition createFresh :: "service \<Rightarrow> world \<Rightarrow> outcome" where
  "createFresh s w =
     (let s1 = (openDatabase emptyDatabase s)\<lparr>loadSource := Some Fresh\<rparr> in
      case initSchema s1 w of
        Inl e \<Rightarrow> (Some e, s1, w)
      | Inr (s2, w2) \<Rightarrow>
          if serverAvailable s2
            then (None, s2, logMsg Info ''Fresh database pushed to server'' (snd (pushToServer s2 w2)))
          else (None, s2, offerDownload s2 w2))"

definition fileStep :: "service \<Rightarrow> world \<Rightarrow> outcome" where
  "fileStep s w =
     (case db s of
        Some opened \<Rightarrow> (None, s, w)
      | None \<Rightarrow>
          (case tryPrebuilt tryPaths s w of
             (loadedFromFile, s1, w1) \<Rightarrow>
               if \<not> loadedFromFile then createFresh s1 w1 else (None, s1, w1)))"

text \<open>The two column migrations, and a save when one of them changed the table.\<close>

definition migrateStep :: "service \<Rightarrow> world \<Rightarrow> outcome" where
  "migrateStep s w =
     (case db s of
        None \<Rightarrow> (None, s, w)
      | Some opened \<Rightarrow>
          (case ensureIsRootColumn s of
             Inl e \<Rightarrow> (Some e, s, w)
           | Inr (rootColumnsAdded, s1) \<Rightarrow>
               (case ensureStrongsColumn s1 of
                  Inl e \<Rightarrow> (Some e, s1, w)
                | Inr (strongsColumnAdded, s2) \<Rightarrow>
                    if rootColumnsAdded \<or> strongsColumnAdded then (None, s2, save s2 w)
                    else (None, s2, w))))"

definition strongsStep :: "service \<Rightarrow> world \<Rightarrow> outcome" where
  "strongsStep s w = (case loadStrongNumbersDb s w of (s', w') \<Rightarrow> (None, s', w'))"

definition init :: "service \<Rightarrow> world \<Rightarrow> outcome" where
  "init s w =
     (if isReady s then (None, s, w)
      else
        (case andThen (andThen (andThen (andThen (andThen (loadSqlJs s w)
                 serverStep) cacheStep) fileStep) migrateStep) strongsStep of
           (Some e, s', w') \<Rightarrow> (Some e, s', logMsg Error ''DatabaseService init error:'' w')
         | (None, s', w') \<Rightarrow> (None, s'\<lparr>isReady := True\<rparr>, w')))"

definition resetDatabase :: "service \<Rightarrow> world \<Rightarrow> service \<times> world" where
  "resetDatabase s w = (s\<lparr>db := None, loadSource := None, isReady := False\<rparr>, w\<lparr>cache := None\<rparr>)"

subsection \<open>Views used in the statements\<close>

text \<open>The table of entries of the opened database, if the file is a database and has one.\<close>

definition entryTable :: "service \<Rightarrow> table option" where
  "entryTable s = (case db s of Some (Sqlite d) \<Rightarrow> entries d | _ \<Rightarrow> None)"




text \<open>
  A value begins with a string when its text does; a number is read in decimal, and
  \<^verbatim>\<open>NULL\<close> begins with nothing.
\<close>

definition beginsWith :: "utext \<Rightarrow> sqlval \<Rightarrow> bool" where
  "beginsWith l v =
     (case v of
        Null \<Rightarrow> False
      | Integer i \<Rightarrow> prefix l (decimal i)
      | Text x \<Rightarrow> prefix l x)"

text \<open>\<open>addEntries\<close> followed by \<open>getAllEntries\<close>: the list that is read back.\<close>

definition addThenGetAll :: "entry list \<Rightarrow> service \<Rightarrow> world \<Rightarrow> jsobj list" where
  "addThenGetAll es s w = (case addEntries es s w of (r, s', w') \<Rightarrow> fst (getAllEntries s' w'))"

text \<open>An entry that has the four fields the interface requires.\<close>

definition complete :: "entry \<Rightarrow> bool" where
  "complete e =
     (id_entry e \<noteq> None \<and> hebrewWord e \<noteq> None \<and> partOfSpeech e \<noteq> None \<and>
      definition_entry e \<noteq> None)"

definition textOf :: "utext option \<Rightarrow> utext" where
  "textOf v = (case v of None \<Rightarrow> [] | Some x \<Rightarrow> x)"

text \<open>
  What a row written for an entry at time \<open>t\<close> reads back as, column by column: the
  entry's texts (each up to its first character U+0000, if it has one), the empty text
  for an optional field that is absent, the truth of its root flag, and \<open>t\<close> as the date
  (as a double).
\<close>

definition storedFields :: "entry \<Rightarrow> int \<Rightarrow> jsobj" where
  "storedFields e t =
     [(''id'', JStr (readText (textOf (id_entry e)))),
      (''hebrewWord'', JStr (readText (textOf (hebrewWord e)))),
      (''hebrewConsonantal'', JStr (readText (textOf (hebrewConsonantal e)))),
      (''transliteration'', JStr (readText (textOf (transliteration e)))),
      (''partOfSpeech'', JStr (readText (textOf (partOfSpeech e)))),
      (''definition'', JStr (readText (textOf (definition_entry e)))),
      (''root'', JStr (readText (textOf (root e)))),
      (''isRoot'', JBool (isRoot e = Some True)),
      (''strongsNumbers'', JStr (readText (textOf (strongsNumbers e)))),
      (''sourcePage'', JStr (readText (textOf (sourcePage e)))),
      (''sourceUrl'', JStr (readText (textOf (sourceUrl e)))),
      (''dateAdded'', JNum (nearestDouble t))]"

text \<open>
  A table of entries declared as \<open>initSchema\<close> declares it: \<^verbatim>\<open>id\<close> is the primary key,
  and the columns are the twelve columns of the schema, each with its type and its
  default, in any order (the migrations add theirs last).
\<close>

definition declaredAsSchema :: "table \<Rightarrow> bool" where
  "declaredAsSchema t = (primaryKey t = Some ''id'' \<and> mset (columns t) = mset schemaColumns)"

text \<open>An id that holds no character U+0000: the entry's, and those stored in a table.\<close>

definition plainId :: "entry \<Rightarrow> bool" where
  "plainId e = (0 \<notin> set (textOf (id_entry e)))"

definition plainIds :: "table \<Rightarrow> bool" where
  "plainIds t =
     list_all (\<lambda>r. case cell t r ''id'' of Some (Text v) \<Rightarrow> 0 \<notin> set v | _ \<Rightarrow> True) (rows t)"

text \<open>The values bound for a complete entry at time \<open>t\<close>, in the order of the statement.\<close>

definition boundValues :: "entry \<Rightarrow> int \<Rightarrow> sqlval list" where
  "boundValues e t =
     [Text (textOf (id_entry e)),
      Text (textOf (hebrewWord e)),
      Text (textOf (hebrewConsonantal e)),
      Text (textOf (transliteration e)),
      Text (textOf (partOfSpeech e)),
      Text (textOf (definition_entry e)),
      Text (textOf (root e)),
      Integer (if isRoot e = Some True then 1 else 0),
      Text (textOf (strongsNumbers e)),
      Text (textOf (sourcePage e)),
      Text (textOf (sourceUrl e)),
      Integer t]"

text \<open>The table after the rows of a batch have been written one after the other.\<close>

definition writeAll :: "int \<Rightarrow> entry list \<Rightarrow> table \<Rightarrow> table" where
  "writeAll t es tbl = foldl (\<lambda>tb e. insert_or_replace (boundValues e t) tb) tbl es"

text \<open>The object that \<open>mapResults\<close> builds for one row.\<close>

definition resultObject :: "string list \<Rightarrow> sqlval list \<Rightarrow> jsobj" where
  "resultObject cols row =
     map (\<lambda>(col, v). (col, if col = ''isRoot'' then JBool (truthy (toJs v)) else toJs v))
         (zip cols row)"


subsection \<open>The start-up as the specification describes it\<close>

text \<open>
  An image with a column added to its table of entries, unless the table has a column
  that answers to the name, or is full.
\<close>

definition withColumn :: "string \<Rightarrow> columnDef \<Rightarrow> image \<Rightarrow> image" where
  "withColumn c def img =
     (case img of
        Raw bs \<Rightarrow> img
      | Sqlite d \<Rightarrow>
          (case entries d of
             None \<Rightarrow> img
           | Some t \<Rightarrow>
               if columns t = [] \<or> sqlColumn t c \<noteq> None \<or> maxColumns \<le> length (columns t)
               then img
               else Sqlite (d\<lparr>entries :=
                      Some (t\<lparr>columns := columns t @ [(c, def)],
                              rows := map (\<lambda>r. r @ [snd def]) (rows t)\<rparr>)\<rparr>)))"

text \<open>
  The exception with which the migration of a column ends on an image, if it does. The
  file is not a database. Or the table of entries has no column of exactly this name, so
  that the service takes the column to be missing, and the engine refuses to add it: the
  table is full, or it has a column that answers to the name (the name in another case
  of letters).
\<close>

definition refusal :: "string \<Rightarrow> image \<Rightarrow> error option" where
  "refusal c img =
     (case img of
        Raw bs \<Rightarrow> Some NotADatabase
      | Sqlite d \<Rightarrow>
          (case entries d of
             None \<Rightarrow> None
           | Some t \<Rightarrow>
               if columns t = [] \<or> c \<in> set (columnNames t) then None
               else if maxColumns \<le> length (columns t) then Some TooManyColumns
               else if sqlColumn t c \<noteq> None then Some (DuplicateColumn c)
               else None))"

text \<open>
  The migration of an image: the exception it ends with, if any, and the image it leaves.
  The two columns are added in turn where they are missing; the migration ends at the
  first that fails.
\<close>

definition migration :: "image \<Rightarrow> error option \<times> image" where
  "migration img =
     (case refusal ''isRoot'' img of
        Some e \<Rightarrow> (Some e, img)
      | None \<Rightarrow>
          (let img1 = withColumn ''isRoot'' (IntegerAffinity, Integer 0) img in
           case refusal ''strongsNumbers'' img1 of
             Some e \<Rightarrow> (Some e, img1)
           | None \<Rightarrow> (None, withColumn ''strongsNumbers'' (TextAffinity, Text []) img1)))"

definition migrated :: "image \<Rightarrow> image" where
  "migrated img = snd (migration img)"

text \<open>A blob counts only if it passes the header check.\<close>

definition validOnly :: "image option \<Rightarrow> image option" where
  "validOnly b = (if isSqliteFile b then b else None)"

definition validBody :: "fetch_result \<Rightarrow> image option" where
  "validBody r =
     (case r of
        NetworkError \<Rightarrow> None
      | Response ok buf \<Rightarrow> if ok \<and> isSqliteFile (Some buf) then Some buf else None)"

definition serverImage :: "world \<Rightarrow> image option" where
  "serverImage w = (if server_up w then validOnly (server_file w) else None)"

definition prebuiltImage :: "world \<Rightarrow> image option" where
  "prebuiltImage w =
     (case validBody (fetchStatic ''/lexicon.sqlite'' w) of
        Some b \<Rightarrow> Some b
      | None \<Rightarrow> validBody (fetchStatic ''/prebuilt/lexicon.sqlite'' w))"

definition freshImage :: image where
  "freshImage = Sqlite \<lparr>entries = Some freshTable, strongs = None\<rparr>"

text \<open>
  The priority of the sources, as the specification states it: the server, the local cache,
  a prebuilt file, a fresh database; the first that has a valid image wins.
\<close>

definition startImage :: "world \<Rightarrow> load_source \<times> image" where
  "startImage w =
     (case serverImage w of
        Some b \<Rightarrow> (Server, b)
      | None \<Rightarrow>
          (case validOnly (cache w) of
             Some b \<Rightarrow> (IndexedDB, b)
           | None \<Rightarrow>
               (case prebuiltImage w of
                  Some b \<Rightarrow> (PrebuiltFile, b)
                | None \<Rightarrow> (Fresh, freshImage))))"

text \<open>
  The exception and the service that a start-up is expected to end with, from a service
  that is not ready and has no engine.
\<close>

definition expectedStart :: "service \<Rightarrow> world \<Rightarrow> error option \<times> service" where
  "expectedStart s w =
     (if \<not> sqljs_loads w then (Some SqlJsLoadFailed, s)
      else
        (case startImage w of
           (src, img) \<Rightarrow>
             (let s1 = s\<lparr>db := Some (migrated img), txn := None, SQL := True,
                         loadSource := Some src, serverAvailable := server_up w\<rparr>
              in case fst (migration img) of
                   Some e \<Rightarrow> (Some e, s1)
                 | None \<Rightarrow>
                     (None,
                      s1\<lparr>isReady := True,
                          strongsDb :=
                            (case strongsDb s of
                               Some loaded \<Rightarrow> Some loaded
                             | None \<Rightarrow> validBody (fetchStatic ''/strongs.sqlite'' w))\<rparr>))))"

text \<open>The environment in which every blob that fails the header check is absent.\<close>

definition scrubResponse :: "fetch_result \<Rightarrow> fetch_result" where
  "scrubResponse r =
     (case r of
        NetworkError \<Rightarrow> NetworkError
      | Response ok buf \<Rightarrow> if ok \<and> \<not> isSqliteFile (Some buf) then Response False buf else r)"

definition withoutInvalid :: "world \<Rightarrow> world" where
  "withoutInvalid w =
     w\<lparr>cache := validOnly (cache w),
       server_file := validOnly (server_file w),
       static := map (\<lambda>(p, r). (p, scrubResponse r)) (static w)\<rparr>"

subsection \<open>Sample data\<close>

definition sampleWorld :: world where
  "sampleWorld =
     \<lparr>sqljs_loads = True, now = 1700000000000, cache = None, server_up = False,
      server_file = None, static = [], pending = [], downloads = [], console = []\<rparr>"

text \<open>An entry with the three-letter headword alef, bet, gimel, pointed with one vowel mark.\<close>

definition sampleEntry :: entry where
  "sampleEntry =
     \<lparr>id_entry = Some [0x61], hebrewWord = Some [0x5D0, 0x5B8, 0x5D1, 0x5D2],
      hebrewConsonantal = Some [0x5D0, 0x5D1, 0x5D2], transliteration = None,
      partOfSpeech = Some [0x6E], definition_entry = Some [0x64], root = None,
      isRoot = None, strongsNumbers = None, sourcePage = None, sourceUrl = None,
      dateAdded = Some 5, status = Some Valid, validationIssue = None\<rparr>"

definition sampleDatabase :: image where
  "sampleDatabase = Sqlite \<lparr>entries = Some freshTable, strongs = None\<rparr>"

definition readyService :: service where
  "readyService = initialService\<lparr>db := Some sampleDatabase, SQL := True, isReady := True\<rparr>"

text \<open>
  A store written before the columns \<^verbatim>\<open>isRoot\<close> and \<^verbatim>\<open>strongsNumbers\<close> were introduced,
  with three rows.
\<close>

definition legacyTable :: table where
  "legacyTable =
     \<lparr>columns = [(''id'', TextAffinity, Null), (''hebrewWord'', TextAffinity, Null),
                 (''hebrewConsonantal'', TextAffinity, Null),
                 (''dateAdded'', IntegerAffinity, Null)],
      rows = [[Text [0x61], Text [0x5D0, 0x5D3], Text [0x5D0, 0x5D3], Integer 1],
              [Text [0x62], Text [0x5D1, 0x5D2], Text [0x5D1, 0x5D2], Integer 2],
              [Text [0x63], Text [0x5D0, 0x5D1], Text [0x5D0, 0x5D1], Integer 3]],
      primaryKey = Some ''id''\<rparr>"

definition legacyDatabase :: database where
  "legacyDatabase = \<lparr>entries = Some legacyTable, strongs = None\<rparr>"

definition legacyService :: service where
  "legacyService = initialService\<lparr>db := Some (Sqlite legacyDatabase), SQL := True, isReady := True\<rparr>"

definition secondEntry :: entry where
  "secondEntry =
     sampleEntry\<lparr>id_entry := Some [0x62], hebrewWord := Some [0x5D1, 0x5D2],
                  hebrewConsonantal := Some [0x5D1, 0x5D2]\<rparr>"

text \<open>The sample entry again, under the same id, with a transliteration and the root flag.\<close>

definition revisedEntry :: entry where
  "revisedEntry = sampleEntry\<lparr>transliteration := Some [0x74], isRoot := Some True\<rparr>"

text \<open>An entry as the extraction service may return it: no part of speech.\<close>

definition incompleteEntry :: entry where
  "incompleteEntry = secondEntry\<lparr>id_entry := Some [0x63], partOfSpeech := None\<rparr>"

definition prebuiltDatabase :: image where
  "prebuiltDatabase =
     Sqlite \<lparr>entries = Some (freshTable\<lparr>rows := [boundValues secondEntry 1600000000000]\<rparr>),
             strongs = None\<rparr>"

text \<open>
  An environment in which every source has a valid image: the server holds the legacy
  store, the cache the empty sample database, the web root a prebuilt file.
\<close>

definition crowdedWorld :: world where
  "crowdedWorld =
     sampleWorld\<lparr>cache := Some sampleDatabase, server_up := True,
                  server_file := Some (Sqlite legacyDatabase),
                  static := [(''/lexicon.sqlite'', Response True prebuiltDatabase)]\<rparr>"

text \<open>
  An environment in which every source answers with bytes that are not a database: the
  server's file, the cached blob, and the page the web root serves for both paths.
\<close>

definition junkWorld :: world where
  "junkWorld =
     sampleWorld\<lparr>cache := Some (Raw ''junk''), server_up := True,
                  server_file := Some (Raw ''SQLite format 4''),
                  static := [(''/lexicon.sqlite'', Response True (Raw ''<!doctype html>'')),
                             (''/prebuilt/lexicon.sqlite'', Response True (Raw ''<!doctype html>''))]\<rparr>"







text \<open>
  Stores whose table of entries has the twelve columns but is not declared as
  \<open>initSchema\<close> declares it: one without a primary key, one whose column \<^verbatim>\<open>isRoot\<close> is
  declared \<^verbatim>\<open>TEXT\<close>.
\<close>

definition unkeyedService :: service where
  "unkeyedService =
     readyService\<lparr>db := Some (Sqlite \<lparr>entries = Some (freshTable\<lparr>primaryKey := None\<rparr>),
                                         strongs = None\<rparr>)\<rparr>"

definition textRootService :: service where
  "textRootService =
     readyService\<lparr>db := Some (Sqlite \<lparr>entries =
        Some (freshTable\<lparr>columns :=
                map (\<lambda>(c, def). if c = ''isRoot'' then (c, TextAffinity, snd def) else (c, def))
                    schemaColumns\<rparr>),
        strongs = None\<rparr>)\<rparr>"

text \<open>Two entries whose ids differ only after a character U+0000.\<close>

definition firstTwin :: entry where
  "firstTwin = sampleEntry\<lparr>id_entry := Some [0x61, 0, 0x62]\<rparr>"

definition secondTwin :: entry where
  "secondTwin = sampleEntry\<lparr>id_entry := Some [0x61, 0, 0x63]\<rparr>"

section \<open>Properties\<close>

subsection \<open>Derivation of the root flag\<close>






subsection \<open>Before start-up\<close>

lemma addEntries_no_db: "db s = None \<Longrightarrow> addEntries es s w = (None, s, w)"
  by (simp add: addEntries_def)







subsection \<open>Values read back\<close>

lemma excessBits_small: "m < 2 ^ 53 \<Longrightarrow> excessBits m = 0"
  by (subst excessBits.simps) simp

lemma nearestDouble_small: "\<bar>i\<bar> < 2 ^ 53 \<Longrightarrow> nearestDouble i = i"
  by (simp add: nearestDouble_def Let_def excessBits_small)

lemma readText_plain: "0 \<notin> set v \<Longrightarrow> readText v = v"
  by (induction v) (simp_all add: readText_def)

subsection \<open>Column names\<close>

lemma sqlColumn_exact: "c \<in> set (columnNames t) \<Longrightarrow> sqlColumn t c = Some c"
  by (simp add: sqlColumn_def)


subsection \<open>Deletion\<close>












subsection \<open>Column migration\<close>




subsection \<open>Reading by first letter\<close>

lemma sql_like_percent: "sql_like [37] v"
  by (induction v) simp_all

lemma fold_case_hebrew: "is_hebrew_letter c \<Longrightarrow> (fold_case c = fold_case x) = (c = x)"
  by (auto simp: is_hebrew_letter_def fold_case_def)

lemma sql_like_hebrew_prefix:
  assumes "is_hebrew_letter c"
  shows "sql_like ([c] @ [37]) v = prefix [c] v"
proof (cases v)
  case Nil
  then show ?thesis using assms by (simp add: is_hebrew_letter_def)
next
  case (Cons x xs)
  have "c \<noteq> 37" "c \<noteq> 95" using assms by (simp_all add: is_hebrew_letter_def)
  then show ?thesis using Cons fold_case_hebrew[OF assms, of x] by (simp add: sql_like_percent)
qed

lemma like_value_hebrew:
  "is_hebrew_letter c \<Longrightarrow> like_value ([c] @ [37]) v = beginsWith [c] v"
  by (cases v) (simp_all add: beginsWith_def sql_like_hebrew_prefix del: append.simps)

text \<open>
  Claim C8. On a store whose table of entries has the columns \<^verbatim>\<open>hebrewWord\<close> and
  \<^verbatim>\<open>hebrewConsonantal\<close>, and for a single Hebrew letter (the letters of the alphabet
  filter), \<open>getEntriesByLetter\<close> returns the objects of exactly the rows (each as often as
  it is stored) whose \<^verbatim>\<open>hebrewWord\<close> or \<^verbatim>\<open>hebrewConsonantal\<close> begins with the letter, in
  ascending order of \<^verbatim>\<open>hebrewWord\<close>. The environment is returned as it was: nothing is
  logged, written or scheduled, and a read has no access to the service's fields.
\<close>

theorem getEntriesByLetter_prefix_sorted:
  assumes "db s = Some (Sqlite d)" and "entries d = Some t"
    and "''hebrewWord'' \<in> set (columnNames t)"
    and "''hebrewConsonantal'' \<in> set (columnNames t)"
    and "is_hebrew_letter c"
  shows "\<exists>found.
           getEntriesByLetter [c] s w =
             (map (\<lambda>r. mapRow (getAsObject (columnNames t) r)) found, w) \<and>
           mset found =
             filter_mset (\<lambda>r. beginsWith [c] (cellOrNull t ''hebrewWord'' r)
                             \<or> beginsWith [c] (cellOrNull t ''hebrewConsonantal'' r))
               (mset (rows t)) \<and>
           sorted (map (\<lambda>r. order_key (cellOrNull t ''hebrewWord'' r)) found)"
proof -
  let ?k = "\<lambda>r. order_key (cellOrNull t ''hebrewWord'' r)"
  let ?P = "\<lambda>r. beginsWith [c] (cellOrNull t ''hebrewWord'' r)
                \<or> beginsWith [c] (cellOrNull t ''hebrewConsonantal'' r)"
  let ?found = "sort_key ?k (filter ?P (rows t))"
  have "select_by_prefix ([c] @ [37]) (Sqlite d) = Inr (columnNames t, ?found)"
    using assms(2) sqlColumn_exact[OF assms(3)] sqlColumn_exact[OF assms(4)]
      like_value_hebrew[OF assms(5)]
    by (simp add: select_by_prefix_def del: append.simps)
  then have "getEntriesByLetter [c] s w =
      (map (\<lambda>r. mapRow (getAsObject (columnNames t) r)) ?found, w)"
    using assms(1) by (simp add: getEntriesByLetter_def del: append.simps)
  moreover have "mset ?found = filter_mset ?P (mset (rows t))"
    by simp
  moreover have "sorted (map ?k ?found)"
    by (rule sorted_sort_key)
  ultimately show ?thesis by blast
qed


text \<open>
  The legacy store and the letter alef: the first and the third row match, and the third
  comes first in the result.
\<close>

theorem getEntriesByLetter_prefix_sorted_witness:
  "db legacyService = Some (Sqlite legacyDatabase) \<and> entries legacyDatabase = Some legacyTable \<and>
   ''hebrewWord'' \<in> set (columnNames legacyTable) \<and>
   ''hebrewConsonantal'' \<in> set (columnNames legacyTable) \<and>
   is_hebrew_letter 0x5D0 \<and>
   (\<exists>found.
      getEntriesByLetter [0x5D0] legacyService sampleWorld =
        (map (\<lambda>r. mapRow (getAsObject (columnNames legacyTable) r)) found, sampleWorld) \<and>
      mset found =
        {#[Text [0x61], Text [0x5D0, 0x5D3], Text [0x5D0, 0x5D3], Integer 1],
          [Text [0x63], Text [0x5D0, 0x5D1], Text [0x5D0, 0x5D1], Integer 3]#} \<and>
      sorted (map (\<lambda>r. order_key (cellOrNull legacyTable ''hebrewWord'' r)) found)) \<and>
   fst (getEntriesByLetter [0x5D0] legacyService sampleWorld) =
     [[(''id'', JStr [0x63]), (''hebrewWord'', JStr [0x5D0, 0x5D1]),
       (''hebrewConsonantal'', JStr [0x5D0, 0x5D1]), (''dateAdded'', JNum 3)],
      [(''id'', JStr [0x61]), (''hebrewWord'', JStr [0x5D0, 0x5D3]),
       (''hebrewConsonantal'', JStr [0x5D0, 0x5D3]), (''dateAdded'', JNum 1)]]"
proof -
  have g: "fst (getEntriesByLetter [0x5D0] legacyService sampleWorld) =
     [[(''id'', JStr [0x63]), (''hebrewWord'', JStr [0x5D0, 0x5D1]),
       (''hebrewConsonantal'', JStr [0x5D0, 0x5D1]), (''dateAdded'', JNum 3)],
      [(''id'', JStr [0x61]), (''hebrewWord'', JStr [0x5D0, 0x5D3]),
       (''hebrewConsonantal'', JStr [0x5D0, 0x5D3]), (''dateAdded'', JNum 1)]]"
    by (simp add: getEntriesByLetter_def legacyService_def legacyDatabase_def
        select_by_prefix_def sqlColumn_def legacyTable_def columnNames_def cellOrNull_def
        cell_def fold_case_def mapRow_def getAsObject_def readText_def nearestDouble_small)
  have a: "db legacyService = Some (Sqlite legacyDatabase)"
    by (simp add: legacyService_def)
  have b: "entries legacyDatabase = Some legacyTable"
    by (simp add: legacyDatabase_def)
  have c: "''hebrewWord'' \<in> set (columnNames legacyTable)"
    by (simp add: columnNames_def legacyTable_def)
  have d: "''hebrewConsonantal'' \<in> set (columnNames legacyTable)"
    by (simp add: columnNames_def legacyTable_def)
  have e: "is_hebrew_letter 0x5D0"
    by (simp add: is_hebrew_letter_def)
  have f: "filter_mset (\<lambda>r. beginsWith [0x5D0] (cellOrNull legacyTable ''hebrewWord'' r)
                          \<or> beginsWith [0x5D0] (cellOrNull legacyTable ''hebrewConsonantal'' r))
             (mset (rows legacyTable)) =
           {#[Text [0x61], Text [0x5D0, 0x5D3], Text [0x5D0, 0x5D3], Integer 1],
             [Text [0x63], Text [0x5D0, 0x5D1], Text [0x5D0, 0x5D1], Integer 3]#}"
    by (simp add: legacyTable_def cellOrNull_def cell_def columnNames_def beginsWith_def)
  from getEntriesByLetter_prefix_sorted[OF a b c d e, of sampleWorld] f
  have "\<exists>found.
      getEntriesByLetter [0x5D0] legacyService sampleWorld =
        (map (\<lambda>r. mapRow (getAsObject (columnNames legacyTable) r)) found, sampleWorld) \<and>
      mset found =
        {#[Text [0x61], Text [0x5D0, 0x5D3], Text [0x5D0, 0x5D3], Integer 1],
          [Text [0x63], Text [0x5D0, 0x5D1], Text [0x5D0, 0x5D1], Integer 3]#} \<and>
      sorted (map (\<lambda>r. order_key (cellOrNull legacyTable ''hebrewWord'' r)) found)"
    by simp
  with a b c d e g show ?thesis by simp
qed

subsection \<open>Bulk insertion\<close>

lemma bindAll_complete: "complete e \<Longrightarrow> bindAll (entryParams e t) = Inr (boundValues e t)"
  by (auto simp: complete_def entryParams_def boundValues_def required_def orEmpty_def textOf_def
      split: option.splits)

lemma bindAll_incomplete: "\<not> complete e \<Longrightarrow> bindAll (entryParams e t) = Inl UnknownBindType"
  by (auto simp: complete_def entryParams_def required_def orEmpty_def split: option.splits)

lemma stmt_run_txn: "stmt_run ps s = Inr s' \<Longrightarrow> txn s' = txn s"
  by (auto simp: stmt_run_def split: sum.splits option.splits image.splits)

lemma stmt_run_incomplete: "\<not> complete e \<Longrightarrow> stmt_run (entryParams e t) s = Inl UnknownBindType"
  by (simp add: stmt_run_def bindAll_incomplete)

lemma stmt_run_complete:
  "complete e \<Longrightarrow> db s = Some (Sqlite d) \<Longrightarrow> entries d = Some tbl \<Longrightarrow>
   stmt_run (entryParams e t) s =
     Inr (s\<lparr>db := Some (Sqlite (d\<lparr>entries := Some (insert_or_replace (boundValues e t) tbl)\<rparr>))\<rparr>)"
  by (simp add: stmt_run_def bindAll_complete)

lemma stmt_run_frame: "stmt_run ps s = Inr s' \<Longrightarrow> \<exists>x. s' = s\<lparr>db := x\<rparr>"
  by (auto simp: stmt_run_def split: sum.splits option.splits image.splits)

lemma runEntries_frame: "\<exists>x. snd (runEntries t es s) = s\<lparr>db := x\<rparr>"
proof (induction es arbitrary: s)
  case Nil
  have "s = s\<lparr>db := db s\<rparr>" by simp
  then show ?case by (metis runEntries.simps(1) snd_conv)
next
  case (Cons e es)
  show ?case
  proof (cases "stmt_run (entryParams e t) s")
    case (Inl err)
    have "s = s\<lparr>db := db s\<rparr>" by simp
    then show ?thesis using Inl by (metis runEntries.simps(2) snd_conv sum.simps(5))
  next
    case (Inr s')
    from stmt_run_frame[OF Inr] obtain x where "s' = s\<lparr>db := x\<rparr>" by blast
    moreover from Cons.IH[of s'] obtain y where "snd (runEntries t es s') = s'\<lparr>db := y\<rparr>" by blast
    ultimately have "snd (runEntries t (e # es) s) = s\<lparr>db := y\<rparr>" using Inr by simp
    then show ?thesis by blast
  qed
qed

lemma runEntries_txn: "txn (snd (runEntries t es s)) = txn s"
proof (induction es arbitrary: s)
  case Nil
  show ?case by simp
next
  case (Cons e es)
  show ?case
  proof (cases "stmt_run (entryParams e t) s")
    case (Inl err)
    then show ?thesis by simp
  next
    case (Inr s')
    then show ?thesis using Cons.IH[of s'] stmt_run_txn[OF Inr] by simp
  qed
qed

lemma runEntries_incomplete:
  "\<exists>e \<in> set es. \<not> complete e \<Longrightarrow> fst (runEntries t es s) \<noteq> None"
proof (induction es arbitrary: s)
  case Nil
  then show ?case by simp
next
  case (Cons e es)
  show ?case
  proof (cases "stmt_run (entryParams e t) s")
    case (Inl err)
    then show ?thesis by simp
  next
    case (Inr s')
    then have "complete e" using stmt_run_incomplete[of e t s] by auto
    then have "\<exists>e \<in> set es. \<not> complete e" using Cons.prems by auto
    then show ?thesis using Cons.IH[of s'] Inr by simp
  qed
qed

lemma runEntries_complete:
  "\<forall>e \<in> set es. complete e \<Longrightarrow> db s = Some (Sqlite d) \<Longrightarrow> entries d = Some tbl \<Longrightarrow>
   runEntries t es s = (None, s\<lparr>db := Some (Sqlite (d\<lparr>entries := Some (writeAll t es tbl)\<rparr>))\<rparr>)"
proof (induction es arbitrary: s d tbl)
  case Nil
  then show ?case by (simp add: writeAll_def)
next
  case (Cons e es)
  let ?tbl' = "insert_or_replace (boundValues e t) tbl"
  let ?d' = "d\<lparr>entries := Some ?tbl'\<rparr>"
  let ?s' = "s\<lparr>db := Some (Sqlite ?d')\<rparr>"
  have run: "stmt_run (entryParams e t) s = Inr ?s'"
    using Cons.prems by (simp add: stmt_run_complete)
  have "runEntries t es ?s' =
      (None, ?s'\<lparr>db := Some (Sqlite (?d'\<lparr>entries := Some (writeAll t es ?tbl')\<rparr>))\<rparr>)"
    using Cons.prems by (intro Cons.IH) simp_all
  then show ?case using run by (simp add: writeAll_def)
qed

lemma rollback_after_begin:
  assumes "txn s = None" and "db s = Some img" and "txn s2 = db s"
  shows "addEntries_catch s2 w = (None, s2\<lparr>db := Some img, txn := None\<rparr>, logMsg Error ''Error adding entries:'' w)"
  using assms by (simp add: addEntries_catch_def sql_rollback_def)

lemma addEntries_fails:
  assumes "txn s = None" and "db s = Some img" and "\<exists>e \<in> set es. \<not> complete e"
  shows "addEntries es s w = (None, s, logMsg Error ''Error adding entries:'' w)"
proof -
  let ?s1 = "s\<lparr>txn := db s\<rparr>"
  have b: "sql_begin s = Inr ?s1" using assms(1) by (simp add: sql_begin_def)
  have r1: "?s1\<lparr>db := Some img, txn := None\<rparr> = s" using assms(1,2) by (cases s) auto
  show ?thesis
  proof (cases "prepare_insert img")
    case (Inl e)
    have "addEntries_catch ?s1 w = (None, ?s1\<lparr>db := Some img, txn := None\<rparr>, logMsg Error ''Error adding entries:'' w)"
      using rollback_after_begin[OF assms(1,2), of ?s1 w] by simp
    then show ?thesis using assms(2) b Inl r1 by (simp add: addEntries_def)
  next
    case (Inr tbl)
    obtain r s2 where run: "runEntries (now w) es ?s1 = (r, s2)" by (cases "runEntries (now w) es ?s1")
    have "r \<noteq> None" using runEntries_incomplete[OF assms(3), of "now w" ?s1] run by simp
    then obtain err where r: "r = Some err" by auto
    have t2: "txn s2 = db s" using runEntries_txn[of "now w" es ?s1] run by simp
    have "addEntries_catch s2 w = (None, s2\<lparr>db := Some img, txn := None\<rparr>, logMsg Error ''Error adding entries:'' w)"
      using rollback_after_begin[OF assms(1,2) t2, of w] by simp
    moreover have "s2\<lparr>db := Some img, txn := None\<rparr> = s"
    proof -
      from runEntries_frame[of "now w" es ?s1] run obtain x where "s2 = ?s1\<lparr>db := x\<rparr>" by auto
      then show ?thesis using r1 by simp
    qed
    ultimately show ?thesis using assms(2) b Inr run r by (simp add: addEntries_def)
  qed
qed


lemma addEntries_fails_prepare:
  assumes "txn s = None" and "db s = Some img" and "prepare_insert img = Inl err"
  shows "addEntries es s w = (None, s, logMsg Error ''Error adding entries:'' w)"
proof -
  let ?s1 = "s\<lparr>txn := db s\<rparr>"
  have b: "sql_begin s = Inr ?s1" using assms(1) by (simp add: sql_begin_def)
  have r1: "?s1\<lparr>db := Some img, txn := None\<rparr> = s" using assms(1,2) by (cases s) auto
  have "addEntries_catch ?s1 w =
      (None, ?s1\<lparr>db := Some img, txn := None\<rparr>, logMsg Error ''Error adding entries:'' w)"
    using rollback_after_begin[OF assms(1,2), of ?s1 w] by simp
  then show ?thesis using assms(2,3) b r1 by (simp add: addEntries_def)
qed

lemma prepare_insert_ok:
  "entries d = Some tbl \<Longrightarrow> set insertColumns \<subseteq> set (columnNames tbl) \<Longrightarrow>
   prepare_insert (Sqlite d) = Inr tbl"
proof -
  assume a: "entries d = Some tbl" and b: "set insertColumns \<subseteq> set (columnNames tbl)"
  have "filter (\<lambda>c. sqlColumn tbl c = None) insertColumns = []"
    using b by (auto simp: filter_empty_conv sqlColumn_exact)
  then show ?thesis using a by (simp add: prepare_insert_def)
qed

lemma addEntries_commits:
  assumes "txn s = None" and "db s = Some (Sqlite d)" and "entries d = Some tbl"
    and "prepare_insert (Sqlite d) = Inr tbl" and "\<forall>e \<in> set es. complete e"
  shows "addEntries es s w =
      (None, s\<lparr>db := Some (Sqlite (d\<lparr>entries := Some (writeAll (now w) es tbl)\<rparr>))\<rparr>,
       save_unawaited (s\<lparr>db := Some (Sqlite (d\<lparr>entries := Some (writeAll (now w) es tbl)\<rparr>))\<rparr>) w)"
proof -
  let ?s1 = "s\<lparr>txn := db s\<rparr>"
  let ?new = "Some (Sqlite (d\<lparr>entries := Some (writeAll (now w) es tbl)\<rparr>))"
  have b: "sql_begin s = Inr ?s1" using assms(1) by (simp add: sql_begin_def)
  have p: "prepare_insert (Sqlite d) = Inr tbl" by (rule assms(4))
  have r: "runEntries (now w) es ?s1 = (None, ?s1\<lparr>db := ?new\<rparr>)"
    using assms(2,3,5) by (intro runEntries_complete) simp_all
  have c: "sql_commit (?s1\<lparr>db := ?new\<rparr>) = Inr (?s1\<lparr>db := ?new, txn := None\<rparr>)"
    using assms(2) by (simp add: sql_commit_def)
  have e: "?s1\<lparr>db := ?new, txn := None\<rparr> = s\<lparr>db := ?new\<rparr>"
    using assms(1) by (cases s) auto
  show ?thesis using assms(2) b p r c e by (simp add: addEntries_def)
qed






lemma columns_insert_or_replace: "columns (insert_or_replace vals t) = columns t"
  by (simp add: insert_or_replace_def Let_def)

lemma primaryKey_insert_or_replace: "primaryKey (insert_or_replace vals t) = primaryKey t"
  by (simp add: insert_or_replace_def Let_def)

lemma columns_writeAll: "columns (writeAll t es tbl) = columns tbl"
  unfolding writeAll_def
  by (induction es arbitrary: tbl) (simp_all add: columns_insert_or_replace)

lemma primaryKey_writeAll: "primaryKey (writeAll t es tbl) = primaryKey tbl"
  unfolding writeAll_def
  by (induction es arbitrary: tbl) (simp_all add: primaryKey_insert_or_replace)

lemma columnNames_writeAll: "columnNames (writeAll t es tbl) = columnNames tbl"
  by (simp add: columnNames_def columns_writeAll)

lemma declaredAsSchema_writeAll: "declaredAsSchema (writeAll t es tbl) = declaredAsSchema tbl"
  by (simp add: declaredAsSchema_def columns_writeAll primaryKey_writeAll)

lemma cell_cong: "columnNames t = columnNames t' \<Longrightarrow> cell t r c = cell t' r c"
  by (simp add: cell_def)

lemma sqlColumn_cong: "columnNames t = columnNames t' \<Longrightarrow> sqlColumn t c = sqlColumn t' c"
  by (simp add: sqlColumn_def)

lemma newRow_cong:
  assumes "columns t = columns t'"
  shows "newRow t vals = newRow t' vals"
proof -
  have "sqlColumn t = sqlColumn t'"
    using assms by (intro ext sqlColumn_cong) (simp add: columnNames_def)
  then show ?thesis using assms by (simp add: newRow_def boundFor_def)
qed

lemma map_of_zip_Some: "map_of (zip (map Some xs) ys) (Some c) = map_of (zip xs ys) c"
proof (induction xs arbitrary: ys)
  case Nil
  show ?case by simp
next
  case (Cons x xs)
  show ?case by (cases ys) (simp_all add: Cons.IH)
qed

lemma boundFor_exact:
  assumes "set insertColumns \<subseteq> set (columnNames t)"
  shows "boundFor t vals c = map_of (zip insertColumns vals) c"
proof -
  have "map (sqlColumn t) insertColumns = map Some insertColumns"
    using assms by (intro map_cong refl sqlColumn_exact) auto
  then show ?thesis unfolding boundFor_def by (simp only: map_of_zip_Some)
qed

lemma map_of_row:
  "map_of (zip (map fst cols) (map (\<lambda>(c, def). g c def) cols)) c = map_option (g c) (map_of cols c)"
  by (induction cols) auto

lemma cell_newRow:
  assumes "map_of (columns t) c = Some def"
  shows "cell t (newRow t vals) c =
         Some (case boundFor t vals c of None \<Rightarrow> snd def | Some v \<Rightarrow> applyAffinity (fst def) v)"
  unfolding cell_def newRow_def columnNames_def
  using assms
    map_of_row[of "columns t"
      "\<lambda>c def. case boundFor t vals c of None \<Rightarrow> snd def | Some v \<Rightarrow> applyAffinity (fst def) v" c]
  by simp

lemma declared_def:
  assumes "declaredAsSchema t" and "(c, def) \<in> set schemaColumns"
  shows "map_of (columns t) c = Some def"
proof -
  have m: "mset (columns t) = mset schemaColumns" using assms(1) by (simp add: declaredAsSchema_def)
  then have "mset (map fst (columns t)) = mset (map fst schemaColumns)"
    by (metis mset_map)
  moreover have "distinct (map fst schemaColumns)" by (simp add: schemaColumns_def)
  ultimately have "distinct (map fst (columns t))" by (metis mset_eq_imp_distinct_iff)
  moreover have "(c, def) \<in> set (columns t)" using m assms(2) by (metis mset_eq_setD)
  ultimately show ?thesis by simp
qed

lemma schema_names: "map fst schemaColumns = insertColumns"
  by (simp add: schemaColumns_def insertColumns_def)

lemma schema_column: "c \<in> set insertColumns \<Longrightarrow> \<exists>def. (c, def) \<in> set schemaColumns"
  unfolding schema_names[symmetric] by force

lemma declared_columns:
  assumes "declaredAsSchema t"
  shows "set insertColumns \<subseteq> set (columnNames t)"
proof
  fix c assume "c \<in> set insertColumns"
  then obtain def where "(c, def) \<in> set schemaColumns" using schema_column by blast
  then have "map_of (columns t) c = Some def" using assms by (intro declared_def)
  then have "(c, def) \<in> set (columns t)" by (rule map_of_SomeD)
  then show "c \<in> set (columnNames t)" by (force simp: columnNames_def)
qed

lemma bound_id:
  "map_of (zip insertColumns (boundValues e t)) ''id'' = Some (Text (textOf (id_entry e)))"
  by (simp add: insertColumns_def boundValues_def)

lemma bound_some:
  "c \<in> set insertColumns \<Longrightarrow> \<exists>v. map_of (zip insertColumns (boundValues e t)) c = Some v"
  by (auto simp: insertColumns_def boundValues_def)

lemma stored_as_bound:
  "(c, def) \<in> set schemaColumns \<Longrightarrow> map_of (zip insertColumns (boundValues e t)) c = Some v \<Longrightarrow>
   applyAffinity (fst def) v = v"
  by (auto simp: schemaColumns_def insertColumns_def boundValues_def)

lemma cell_newRow_declared:
  assumes "declaredAsSchema t" and "c \<in> set insertColumns"
  shows "cell t (newRow t (boundValues e tm)) c = map_of (zip insertColumns (boundValues e tm)) c"
proof -
  obtain def where d: "(c, def) \<in> set schemaColumns" using assms(2) schema_column by blast
  obtain v where v: "map_of (zip insertColumns (boundValues e tm)) c = Some v"
    using assms(2) bound_some by blast
  have "boundFor t (boundValues e tm) c = Some v"
    using v declared_columns[OF assms(1)] by (simp add: boundFor_exact)
  then show ?thesis
    using cell_newRow[OF declared_def[OF assms(1) d], of "boundValues e tm"]
      stored_as_bound[OF d v] v
    by simp
qed

lemma conflicts_declared:
  assumes "declaredAsSchema t"
  shows "conflicts t (newRow t (boundValues e tm)) r =
         (cell t r ''id'' = Some (Text (textOf (id_entry e))))"
proof -
  have "''id'' \<in> set insertColumns" by (simp add: insertColumns_def)
  from cell_newRow_declared[OF assms this, of e tm]
  have "cell t (newRow t (boundValues e tm)) ''id'' = Some (Text (textOf (id_entry e)))"
    by (simp add: bound_id)
  moreover have "primaryKey t = Some ''id''" using assms by (simp add: declaredAsSchema_def)
  ultimately show ?thesis by (simp add: conflicts_def)
qed

lemma writeAll_snoc:
  "writeAll t (es @ [e]) tbl = insert_or_replace (boundValues e t) (writeAll t es tbl)"
  by (simp add: writeAll_def)

lemma rows_insert_or_replace:
  assumes "declaredAsSchema tb"
  shows "rows (insert_or_replace (boundValues e t) tb) =
     filter (\<lambda>r. cell tb r ''id'' \<noteq> Some (Text (textOf (id_entry e)))) (rows tb)
       @ [newRow tb (boundValues e t)]"
  by (simp add: insert_or_replace_def Let_def conflicts_declared[OF assms])

lemma rows_writeAll_snoc:
  assumes "declaredAsSchema tbl"
  shows "rows (writeAll t (es @ [e]) tbl) =
      filter (\<lambda>r. cell tbl r ''id'' \<noteq> Some (Text (textOf (id_entry e)))) (rows (writeAll t es tbl))
        @ [newRow tbl (boundValues e t)]"
proof -
  let ?T = "writeAll t es tbl"
  have d: "declaredAsSchema ?T" using assms by (simp add: declaredAsSchema_writeAll)
  have cellT: "\<And>r c. cell ?T r c = cell tbl r c"
    using columnNames_writeAll by (rule cell_cong)
  have nr: "newRow ?T (boundValues e t) = newRow tbl (boundValues e t)"
    by (rule newRow_cong) (rule columns_writeAll)
  show ?thesis by (simp add: writeAll_snoc rows_insert_or_replace[OF d] cellT nr)
qed

lemma rows_writeAll_id:
  assumes "declaredAsSchema tbl" and "\<forall>e \<in> set es. complete e"
    and "\<exists>e \<in> set es. id_entry e = Some i"
  shows "filter (\<lambda>r. cell tbl r ''id'' = Some (Text i)) (rows (writeAll t es tbl)) =
         [newRow tbl (boundValues (last (filter (\<lambda>e. id_entry e = Some i) es)) t)]"
  using assms(2,3)
proof (induction es rule: rev_induct)
  case Nil
  then show ?case by simp
next
  case (snoc e es)
  let ?T = "writeAll t es tbl"
  have rows: "rows (writeAll t (es @ [e]) tbl) =
      filter (\<lambda>r. cell tbl r ''id'' \<noteq> Some (Text (textOf (id_entry e)))) (rows ?T)
        @ [newRow tbl (boundValues e t)]"
    using assms(1) by (rule rows_writeAll_snoc)
  have "complete e" using snoc.prems by simp
  then obtain j where j: "id_entry e = Some j" by (auto simp: complete_def)
  have "''id'' \<in> set insertColumns" by (simp add: insertColumns_def)
  from cell_newRow_declared[OF assms(1) this, of e t]
  have idnew: "cell tbl (newRow tbl (boundValues e t)) ''id'' = Some (Text j)"
    using j by (simp add: bound_id textOf_def)
  show ?case
  proof (cases "j = i")
    case True
    then show ?thesis using rows j idnew by (simp add: textOf_def)
  next
    case False
    then have ex: "\<exists>e \<in> set es. id_entry e = Some i" using snoc.prems(2) j by auto
    have all: "\<forall>e \<in> set es. complete e" using snoc.prems(1) by simp
    have "filter (\<lambda>r. cell tbl r ''id'' = Some (Text i))
            (filter (\<lambda>r. cell tbl r ''id'' \<noteq> Some (Text j)) (rows ?T)) =
          filter (\<lambda>r. cell tbl r ''id'' = Some (Text i)) (rows ?T)"
      using False by (auto intro: filter_cong)
    then show ?thesis using rows j idnew False snoc.IH[OF all ex] by (simp add: textOf_def)
  qed
qed

lemma plainIds_writeAll:
  assumes "declaredAsSchema tbl" and "plainIds tbl" and "\<forall>e \<in> set es. plainId e"
  shows "list_all (\<lambda>r. case cell tbl r ''id'' of Some (Text v) \<Rightarrow> 0 \<notin> set v | _ \<Rightarrow> True)
           (rows (writeAll t es tbl))"
  using assms(3)
proof (induction es rule: rev_induct)
  case Nil
  then show ?case using assms(2) by (simp add: plainIds_def writeAll_def)
next
  case (snoc e es)
  have "''id'' \<in> set insertColumns" by (simp add: insertColumns_def)
  from cell_newRow_declared[OF assms(1) this, of e t]
  have idnew: "cell tbl (newRow tbl (boundValues e t)) ''id'' = Some (Text (textOf (id_entry e)))"
    by (simp add: bound_id)
  have "plainId e" using snoc.prems by simp
  then show ?case using snoc.IH snoc.prems idnew
    by (simp add: rows_writeAll_snoc[OF assms(1)] list_all_iff plainId_def)
qed

lemma mapResults_resultObject: "mapResults cols vals = map (resultObject cols) vals"
  unfolding mapResults_def resultObject_def
  by (intro map_cong refl) auto

lemma map_of_map_key:
  "map_of (map (\<lambda>(k, v). (k, f k v)) xs) c = map_option (f c) (map_of xs c)"
  by (induction xs) auto

lemma map_of_resultObject:
  "map_of (resultObject (columnNames t) r) c =
     map_option (\<lambda>v. if c = ''isRoot'' then JBool (truthy (toJs v)) else toJs v) (cell t r c)"
  unfolding resultObject_def cell_def by (rule map_of_map_key)

lemma resultObject_id:
  assumes "case cell t r ''id'' of Some (Text v) \<Rightarrow> 0 \<notin> set v | _ \<Rightarrow> True"
  shows "(map_of (resultObject (columnNames t) r) ''id'' = Some (JStr i)) =
         (cell t r ''id'' = Some (Text i))"
proof (cases "cell t r ''id''")
  case None
  then show ?thesis by (simp add: map_of_resultObject)
next
  case (Some v)
  then show ?thesis using assms by (cases v) (simp_all add: map_of_resultObject readText_plain)
qed

lemma filter_sorted_single:
  assumes "filter P xs = [r]"
  shows "filter P (rev (sort_key k (rev xs))) = [r]"
proof -
  have "mset (filter P (rev (sort_key k (rev xs)))) = mset (filter P xs)" by simp
  then have "mset (filter P (rev (sort_key k (rev xs)))) = {#r#}" using assms by simp
  then show ?thesis by (simp only: mset_single_iff)
qed

lemma getAllEntries_table:
  assumes "db s = Some (Sqlite d)" and "entries d = Some t" and "''dateAdded'' \<in> set (columnNames t)"
  shows "fst (getAllEntries s w) =
         map (resultObject (columnNames t))
           (rev (sort_key (\<lambda>r. order_key (cellOrNull t ''dateAdded'' r)) (rev (rows t))))"
  using assms(1,2) sqlColumn_exact[OF assms(3)]
  by (simp add: getAllEntries_def select_all_by_date_def mapResults_resultObject)

lemma stored_field:
  "c \<in> set insertColumns \<Longrightarrow>
   map_option (\<lambda>v. if c = ''isRoot'' then JBool (truthy (toJs v)) else toJs v)
     (map_of (zip insertColumns (boundValues e t)) c) = map_of (storedFields e t) c"
  by (auto simp: insertColumns_def boundValues_def storedFields_def nearestDouble_small)

lemma prepare_insert_Inr:
  "prepare_insert img = Inr t \<Longrightarrow> \<exists>d. img = Sqlite d \<and> entries d = Some t"
  by (auto simp: prepare_insert_def split: image.splits option.splits list.splits)









lemmas sample_defs =
  readyService_def initialService_def sampleDatabase_def freshTable_def schemaColumns_def
  sampleWorld_def sampleEntry_def secondEntry_def revisedEntry_def incompleteEntry_def

lemmas insert_defs =
  addEntries_def sql_begin_def sql_commit_def prepare_insert_def stmt_run_def entryParams_def
  required_def orEmpty_def insert_or_replace_def newRow_def boundFor_def conflicts_def
  sqlColumn_def insertColumns_def cell_def columnNames_def save_unawaited_def db_export_def

lemmas read_defs =
  addThenGetAll_def getAllEntries_def select_all_by_date_def mapResults_def cellOrNull_def
  readText_def nearestDouble_small

text \<open>
  Claim C1, as amended. On a store with no transaction open whose table of entries is
  declared as \<open>initSchema\<close> declares it and holds no id with a character U+0000, and for
  a batch in which every entry has its four required fields and an id without that
  character: after \<open>addEntries\<close>, the list that \<open>getAllEntries\<close> returns holds, for every id
  that occurs in the batch, exactly one object with that id, and in each of the twelve
  columns this object holds what was stored for the last entry of the batch with that
  id: the entry's texts, the empty text for an optional field that is absent, the truth
  of its root flag, and as the date the one time stamp of the batch.
\<close>

theorem addEntries_upsert_last_wins:
  assumes "txn s = None" and "db s = Some (Sqlite d)" and "entries d = Some tbl"
    and "declaredAsSchema tbl" and "plainIds tbl"
    and "\<forall>e \<in> set es. complete e \<and> plainId e"
    and "\<exists>e \<in> set es. id_entry e = Some i"
  shows "\<exists>obj. filter (\<lambda>ob. map_of ob ''id'' = Some (JStr i)) (addThenGetAll es s w) = [obj] \<and>
           (\<forall>c \<in> set insertColumns.
              map_of obj c =
              map_of (storedFields (last (filter (\<lambda>e. id_entry e = Some i) es)) (now w)) c)"
proof -
  let ?T = "writeAll (now w) es tbl"
  let ?s' = "s\<lparr>db := Some (Sqlite (d\<lparr>entries := Some ?T\<rparr>))\<rparr>"
  let ?e = "last (filter (\<lambda>e. id_entry e = Some i) es)"
  let ?row = "newRow tbl (boundValues ?e (now w))"
  let ?obj = "resultObject (columnNames tbl) ?row"
  let ?k = "\<lambda>r. order_key (cellOrNull ?T ''dateAdded'' r)"
  let ?read = "rev (sort_key ?k (rev (rows ?T)))"
  have cols: "set insertColumns \<subseteq> set (columnNames tbl)"
    using assms(4) by (rule declared_columns)
  then have datecol: "''dateAdded'' \<in> set (columnNames tbl)"
    by (auto simp: insertColumns_def)
  have all: "\<forall>e \<in> set es. complete e" and plain: "\<forall>e \<in> set es. plainId e"
    using assms(6) by simp_all
  have prep: "prepare_insert (Sqlite d) = Inr tbl"
    using assms(3) cols by (rule prepare_insert_ok)
  have add: "addEntries es s w = (None, ?s', save_unawaited ?s' w)"
    using assms(1-3) prep all by (rule addEntries_commits)
  have cn: "columnNames ?T = columnNames tbl" by (rule columnNames_writeAll)
  have "fst (getAllEntries ?s' (save_unawaited ?s' w)) =
      map (resultObject (columnNames ?T)) ?read"
    by (rule getAllEntries_table[where d = "d\<lparr>entries := Some ?T\<rparr>"]) (simp_all add: cn datecol)
  then have got: "addThenGetAll es s w = map (resultObject (columnNames tbl)) ?read"
    using add by (simp add: addThenGetAll_def cn)
  have stored: "list_all (\<lambda>r. case cell tbl r ''id'' of Some (Text v) \<Rightarrow> 0 \<notin> set v | _ \<Rightarrow> True)
      (rows ?T)"
    using assms(4,5) plain by (rule plainIds_writeAll)
  have same: "(map_of (resultObject (columnNames tbl) r) ''id'' = Some (JStr i)) =
      (cell tbl r ''id'' = Some (Text i))" if "r \<in> set ?read" for r
  proof -
    have "r \<in> set (rows ?T)" using that by simp
    then have "case cell tbl r ''id'' of Some (Text v) \<Rightarrow> 0 \<notin> set v | _ \<Rightarrow> True"
      using stored by (simp add: list_all_iff)
    then show ?thesis by (rule resultObject_id)
  qed
  have "filter (\<lambda>r. cell tbl r ''id'' = Some (Text i)) (rows ?T) = [?row]"
    using assms(4) all assms(7) by (rule rows_writeAll_id)
  then have "filter (\<lambda>r. cell tbl r ''id'' = Some (Text i)) ?read = [?row]"
    by (rule filter_sorted_single)
  moreover have "filter (\<lambda>r. map_of (resultObject (columnNames tbl) r) ''id'' = Some (JStr i)) ?read =
      filter (\<lambda>r. cell tbl r ''id'' = Some (Text i)) ?read"
    using same by (intro filter_cong refl)
  ultimately have one: "filter (\<lambda>ob. map_of ob ''id'' = Some (JStr i)) (addThenGetAll es s w) = [?obj]"
    using got by (simp add: filter_map comp_def)
  have "\<forall>c \<in> set insertColumns. map_of ?obj c = map_of (storedFields ?e (now w)) c"
  proof
    fix c assume c: "c \<in> set insertColumns"
    have "cell tbl ?row c = map_of (zip insertColumns (boundValues ?e (now w))) c"
      using assms(4) c by (rule cell_newRow_declared)
    then show "map_of ?obj c = map_of (storedFields ?e (now w)) c"
      using stored_field[OF c, of ?e "now w"] by (simp add: map_of_resultObject)
  qed
  with one show ?thesis by blast
qed

text \<open>
  A batch that holds the sample entry, a second entry and the sample entry revised: two
  objects are read back, the one for the first id with the revised values.
\<close>

theorem addEntries_upsert_last_wins_witness:
  "txn readyService = None \<and> db readyService = Some sampleDatabase \<and>
   entryTable readyService = Some freshTable \<and> declaredAsSchema freshTable \<and>
   plainIds freshTable \<and>
   complete sampleEntry \<and> complete secondEntry \<and> complete revisedEntry \<and>
   plainId sampleEntry \<and> plainId secondEntry \<and> plainId revisedEntry \<and>
   id_entry revisedEntry = Some [0x61] \<and>
   (\<exists>obj. filter (\<lambda>ob. map_of ob ''id'' = Some (JStr [0x61]))
            (addThenGetAll [sampleEntry, secondEntry, revisedEntry] readyService sampleWorld) = [obj] \<and>
          (\<forall>c \<in> set insertColumns.
             map_of obj c = map_of (storedFields revisedEntry 1700000000000) c)) \<and>
   mset (addThenGetAll [sampleEntry, secondEntry, revisedEntry] readyService sampleWorld) =
     {#storedFields secondEntry 1700000000000, storedFields revisedEntry 1700000000000#}"
proof -
  let ?d = "\<lparr>entries = Some freshTable, strongs = None\<rparr>"
  let ?es = "[sampleEntry, secondEntry, revisedEntry]"
  have a: "txn readyService = None" by (simp add: readyService_def initialService_def)
  have b: "db readyService = Some (Sqlite ?d)" by (simp add: readyService_def sampleDatabase_def)
  have c: "entries ?d = Some freshTable" by simp
  have d: "declaredAsSchema freshTable"
    by (simp add: declaredAsSchema_def freshTable_def)
  have p: "plainIds freshTable" by (simp add: plainIds_def freshTable_def)
  have e: "complete sampleEntry" "complete secondEntry" "complete revisedEntry"
    by (simp_all add: complete_def sample_defs)
  have q: "plainId sampleEntry" "plainId secondEntry" "plainId revisedEntry"
    by (simp_all add: plainId_def textOf_def sample_defs)
  have e': "\<forall>e \<in> set ?es. complete e \<and> plainId e" using e q by simp
  have f: "id_entry revisedEntry = Some [0x61]" by (simp add: sample_defs)
  then have f': "\<exists>e \<in> set ?es. id_entry e = Some [0x61]" by simp
  have l: "last (filter (\<lambda>e. id_entry e = Some [0x61]) ?es) = revisedEntry"
    by (simp add: sample_defs)
  have n: "now sampleWorld = 1700000000000" by (simp add: sample_defs)
  from addEntries_upsert_last_wins[OF a b c d p e' f', of sampleWorld] l n
  have g: "\<exists>obj. filter (\<lambda>ob. map_of ob ''id'' = Some (JStr [0x61]))
            (addThenGetAll ?es readyService sampleWorld) = [obj] \<and>
          (\<forall>c \<in> set insertColumns.
             map_of obj c = map_of (storedFields revisedEntry 1700000000000) c)"
    by simp
  have "addThenGetAll ?es readyService sampleWorld =
     [storedFields secondEntry 1700000000000, storedFields revisedEntry 1700000000000]"
    by (simp add: read_defs insert_defs sample_defs storedFields_def textOf_def)
  then have h: "mset (addThenGetAll ?es readyService sampleWorld) =
     {#storedFields secondEntry 1700000000000, storedFields revisedEntry 1700000000000#}"
    by simp
  have b': "db readyService = Some sampleDatabase" by (simp add: readyService_def)
  have t: "entryTable readyService = Some freshTable"
    by (simp add: entryTable_def readyService_def sampleDatabase_def)
  from a b' t d p e q f g h show ?thesis by blast
qed

text \<open>
  The claim as stated fails in five ways. The sample entry is marked valid, and the
  object read back has no status: only the twelve columns are written. An entry without
  its part of speech is not written at all. Two entries whose ids differ only after a
  character U+0000 are read back as two objects with the same id, which is the id of
  neither. On a store whose table has no primary key, an entry and its revision are read
  back as two objects with the same id. And on a store whose column \<^verbatim>\<open>isRoot\<close> is
  declared \<^verbatim>\<open>TEXT\<close>, the sample entry, which is no root, is read back as one.
\<close>

theorem addEntries_upsert_counterexample:
  "status sampleEntry = Some Valid \<and>
   map (\<lambda>ob. map_of ob ''status'') (addThenGetAll [sampleEntry] readyService sampleWorld) = [None] \<and>
   id_entry incompleteEntry = Some [0x63] \<and>
   addThenGetAll [incompleteEntry] readyService sampleWorld = [] \<and>
   id_entry firstTwin = Some [0x61, 0, 0x62] \<and> id_entry secondTwin = Some [0x61, 0, 0x63] \<and>
   map (\<lambda>ob. map_of ob ''id'') (addThenGetAll [firstTwin, secondTwin] readyService sampleWorld) =
     [Some (JStr [0x61]), Some (JStr [0x61])] \<and>
   id_entry sampleEntry = Some [0x61] \<and> id_entry revisedEntry = Some [0x61] \<and>
   map (\<lambda>ob. map_of ob ''id'') (addThenGetAll [sampleEntry, revisedEntry] unkeyedService sampleWorld) =
     [Some (JStr [0x61]), Some (JStr [0x61])] \<and>
   isRoot sampleEntry = None \<and>
   map (\<lambda>ob. map_of ob ''isRoot'') (addThenGetAll [sampleEntry] textRootService sampleWorld) =
     [Some (JBool True)]"
proof -
  have a: "map (\<lambda>ob. map_of ob ''status'') (addThenGetAll [sampleEntry] readyService sampleWorld) = [None]"
    by (simp add: read_defs insert_defs sample_defs)
  have b: "addThenGetAll [incompleteEntry] readyService sampleWorld = []"
    by (simp add: read_defs insert_defs sample_defs addEntries_catch_def sql_rollback_def)
  have c: "map (\<lambda>ob. map_of ob ''id'') (addThenGetAll [firstTwin, secondTwin] readyService sampleWorld) =
     [Some (JStr [0x61]), Some (JStr [0x61])]"
    by (simp add: read_defs insert_defs sample_defs firstTwin_def secondTwin_def)
  have d: "map (\<lambda>ob. map_of ob ''id'') (addThenGetAll [sampleEntry, revisedEntry] unkeyedService sampleWorld) =
     [Some (JStr [0x61]), Some (JStr [0x61])]"
    by (simp add: read_defs insert_defs sample_defs unkeyedService_def)
  have e: "map (\<lambda>ob. map_of ob ''isRoot'') (addThenGetAll [sampleEntry] textRootService sampleWorld) =
     [Some (JBool True)]"
    by (simp add: read_defs insert_defs sample_defs textRootService_def numberText_def decimal_def)
  have f: "status sampleEntry = Some Valid" "id_entry incompleteEntry = Some [0x63]"
    "id_entry firstTwin = Some [0x61, 0, 0x62]" "id_entry secondTwin = Some [0x61, 0, 0x63]"
    "id_entry sampleEntry = Some [0x61]" "id_entry revisedEntry = Some [0x61]"
    "isRoot sampleEntry = None"
    by (simp_all add: sample_defs firstTwin_def secondTwin_def)
  from a b c d e f show ?thesis by simp
qed

text \<open>
  Claim C2, as amended. On a store with no transaction open, when the insert statement
  cannot be prepared or some entry of the batch cannot be bound, \<open>addEntries\<close> returns
  normally, the service is exactly as it was before the call (the rows written before
  the failure are rolled back), and the environment differs by one line on the console:
  nothing is written to the cache, pushed to the server or queued. The error is logged;
  it does not reach the caller.
\<close>

theorem addEntries_failure_rolls_back:
  assumes "txn s = None" and "db s = Some img"
    and "(\<exists>err. prepare_insert img = Inl err) \<or> (\<exists>e \<in> set es. \<not> complete e)"
  shows "addEntries es s w = (None, s, logMsg Error ''Error adding entries:'' w)"
  using assms addEntries_fails_prepare[OF assms(1,2)] addEntries_fails[OF assms(1,2)] by blast

text \<open>
  A batch whose second entry lacks its part of speech: when it throws, the engine holds
  the row of the first entry; after the call the table is empty again.
\<close>

theorem addEntries_failure_rolls_back_witness:
  "txn readyService = None \<and> db readyService = Some sampleDatabase \<and>
   \<not> complete incompleteEntry \<and>
   entryTable (snd (runEntries 1700000000000 [sampleEntry, incompleteEntry]
                      (readyService\<lparr>txn := db readyService\<rparr>))) =
     Some (freshTable\<lparr>rows := [boundValues sampleEntry 1700000000000]\<rparr>) \<and>
   addEntries [sampleEntry, incompleteEntry] readyService sampleWorld =
     (None, readyService, logMsg Error ''Error adding entries:'' sampleWorld) \<and>
   entryTable readyService = Some freshTable"
proof -
  have a: "txn readyService = None" by (simp add: sample_defs)
  have b: "db readyService = Some sampleDatabase" by (simp add: sample_defs)
  have c: "\<not> complete incompleteEntry" by (simp add: complete_def sample_defs)
  then have c': "(\<exists>err. prepare_insert sampleDatabase = Inl err) \<or>
      (\<exists>e \<in> set [sampleEntry, incompleteEntry]. \<not> complete e)"
    by simp
  have m: "entryTable (snd (runEntries 1700000000000 [sampleEntry, incompleteEntry]
                      (readyService\<lparr>txn := db readyService\<rparr>))) =
     Some (freshTable\<lparr>rows := [boundValues sampleEntry 1700000000000]\<rparr>)"
    by (simp add: entryTable_def insert_defs sample_defs boundValues_def textOf_def)
  have t: "entryTable readyService = Some freshTable"
    by (simp add: entryTable_def readyService_def sampleDatabase_def)
  from a b c m t addEntries_failure_rolls_back[OF a b c', of sampleWorld]
  show ?thesis by simp
qed

text \<open>
  The claim as stated fails on its last part: the batch cannot be written, and the call
  returns normally, with one line on the console.
\<close>

theorem addEntries_failure_counterexample:
  "\<not> complete incompleteEntry \<and>
   fst (addEntries [sampleEntry, incompleteEntry] readyService sampleWorld) = None \<and>
   console (snd (snd (addEntries [sampleEntry, incompleteEntry] readyService sampleWorld))) =
     [(Error, ''Error adding entries:'')]"
proof -
  have a: "txn readyService = None" by (simp add: sample_defs)
  have b: "db readyService = Some sampleDatabase" by (simp add: sample_defs)
  have c: "\<not> complete incompleteEntry" by (simp add: complete_def sample_defs)
  then have "\<exists>e \<in> set [sampleEntry, incompleteEntry]. \<not> complete e" by simp
  from addEntries_fails[OF a b this, of sampleWorld] c show ?thesis
    by (simp add: logMsg_def sampleWorld_def)
qed





subsection \<open>Start-up\<close>

lemma checkServer_up: "checkServer w = server_up w"
  by (simp add: checkServer_def serverGetStatus_def)

lemma serverStep_result:
  assumes "SQL s"
  shows "\<exists>w'. serverStep s w =
           (None,
            (case serverImage w of
               Some b \<Rightarrow> (openDatabase b (s\<lparr>serverAvailable := server_up w\<rparr>))\<lparr>loadSource := Some Server\<rparr>
             | None \<Rightarrow> s\<lparr>serverAvailable := server_up w\<rparr>),
            w') \<and>
         static w' = static w \<and> cache w' = cache w \<and> server_up w' = server_up w \<and>
         server_file w' = server_file w \<and> sqljs_loads w' = sqljs_loads w \<and>
         set (console w) \<subseteq> set (console w')"
  using assms
  by (auto simp: serverStep_def checkServer_up serverImage_def validOnly_def loadFromServer_def
      serverGetLexicon_def logMsg_def Let_def openDatabase_def split: option.splits)


lemma cacheStep_result:
  assumes "db s = None"
  shows "\<exists>w' ls. cacheStep s w =
           (None,
            (case validOnly (cache w) of
               Some c \<Rightarrow> (openDatabase c s)\<lparr>loadSource := Some IndexedDB\<rparr>
             | None \<Rightarrow> s\<lparr>loadSource := ls\<rparr>),
            w') \<and>
         static w' = static w \<and> server_up w' = server_up w \<and>
         set (console w) \<subseteq> set (console w') \<and>
         cache w' = validOnly (cache w) \<and>
         (cache w \<noteq> None \<and> \<not> isSqliteFile (cache w) \<longrightarrow>
            (Warn, ''Stored sqlite binary is invalid. Clearing cache.'') \<in> set (console w'))"
proof (cases "cache w")
  case None
  have "s = s\<lparr>loadSource := loadSource s\<rparr>" by simp
  then show ?thesis using assms None
    by (auto simp: cacheStep_def validOnly_def isSqliteFile_def intro!: exI[of _ "loadSource s"])
next
  case (Some c)
  show ?thesis
  proof (cases "isSqliteFile (Some c)")
    case True
    then show ?thesis using assms Some by (simp add: cacheStep_def validOnly_def)
  next
    case False
    then show ?thesis using assms Some
      by (auto simp: cacheStep_def validOnly_def logMsg_def intro!: exI[of _ "Some InvalidCache"])
  qed
qed

lemma save_frame:
  "static (save s w) = static w \<and> server_up (save s w) = server_up w \<and>
   set (console w) \<subseteq> set (console (save s w))"
  by (auto simp: save_def persist_def pushToServer_def serverPostLexicon_def logMsg_def Let_def
      split: option.splits)

lemma save_cache: "db s = Some img \<Longrightarrow> cache (save s w) = Some img"
  by (auto simp: save_def persist_def pushToServer_def serverPostLexicon_def logMsg_def Let_def
      db_export_def)

lemma createFresh_result:
  "\<exists>w'. createFresh s w = (None, (openDatabase freshImage s)\<lparr>loadSource := Some Fresh\<rparr>, w') \<and>
        static w' = static w \<and> server_up w' = server_up w \<and>
        set (console w) \<subseteq> set (console w') \<and> cache w' = cache w"
  by (auto simp: createFresh_def initSchema_def create_table_entries_def emptyDatabase_def
      freshImage_def openDatabase_def save_unawaited_def pushToServer_def serverPostLexicon_def
      offerDownload_def logMsg_def Let_def)

lemma logMsg_frame:
  "static (logMsg l m w) = static w" "server_up (logMsg l m w) = server_up w"
  "cache (logMsg l m w) = cache w" "server_file (logMsg l m w) = server_file w"
  "pending (logMsg l m w) = pending w" "sqljs_loads (logMsg l m w) = sqljs_loads w"
  "console (logMsg l m w) = console w @ [(l, m)]"
  by (auto simp: logMsg_def)

lemma fetchStatic_cong: "static w1 = static w \<Longrightarrow> fetchStatic p w1 = fetchStatic p w"
  by (simp add: fetchStatic_def)

lemma tryPrebuilt_skip:
  assumes "validBody (fetchStatic p w) = None"
  shows "\<exists>w1. tryPrebuilt (p # rest) s w = tryPrebuilt rest s w1 \<and>
           static w1 = static w \<and> server_up w1 = server_up w \<and>
           set (console w) \<subseteq> set (console w1) \<and> cache w1 = cache w"
proof (cases "fetchStatic p w")
  case NetworkError
  then show ?thesis
    by (auto simp: logMsg_frame intro!: exI[of _ "logMsg Debug (''Failed fetching '' @ p @ '':'') w"])
next
  case (Response ok buf)
  show ?thesis
  proof (cases ok)
    case False
    then show ?thesis using Response by (auto intro!: exI[of _ w])
  next
    case True
    then have "\<not> isSqliteFile (Some buf)" using assms Response
      by (auto simp: validBody_def split: if_splits)
    then show ?thesis using Response True
      by (auto simp: logMsg_frame
          intro!: exI[of _ "logMsg Warn (''Skipping '' @ p @ '': not a valid SQLite file'') w"])
  qed
qed

lemma tryPrebuilt_load:
  assumes "validBody (fetchStatic p w) = Some b"
  shows "\<exists>w1. tryPrebuilt (p # rest) s w =
             (True, (openDatabase b s)\<lparr>loadSource := Some PrebuiltFile\<rparr>, w1) \<and>
           static w1 = static w \<and> server_up w1 = server_up w \<and>
           set (console w) \<subseteq> set (console w1) \<and> cache w1 = Some b"
proof -
  from assms have r: "fetchStatic p w = Response True b" and v: "isSqliteFile (Some b)"
    by (auto simp: validBody_def split: fetch_result.splits if_splits)
  let ?s' = "(openDatabase b s)\<lparr>loadSource := Some PrebuiltFile\<rparr>"
  let ?w1 = "logMsg Info (''Loaded database from '' @ p) (save ?s' w)"
  have "tryPrebuilt (p # rest) s w = (True, ?s', ?w1)" using r v by (simp add: Let_def)
  moreover have "static ?w1 = static w" "server_up ?w1 = server_up w"
    by (simp_all add: logMsg_frame save_frame)
  moreover have "set (console w) \<subseteq> set (console ?w1)"
    using save_frame[of ?s' w] by (auto simp: logMsg_frame)
  moreover have "cache ?w1 = Some b"
    by (simp add: logMsg_frame save_cache openDatabase_def)
  ultimately show ?thesis by blast
qed

lemma tryPrebuilt_result:
  "\<exists>w'. tryPrebuilt tryPaths s w =
          (prebuiltImage w \<noteq> None,
           (case prebuiltImage w of
              Some b \<Rightarrow> (openDatabase b s)\<lparr>loadSource := Some PrebuiltFile\<rparr>
            | None \<Rightarrow> s),
           w') \<and>
        static w' = static w \<and> server_up w' = server_up w \<and>
        set (console w) \<subseteq> set (console w') \<and>
        cache w' = (case prebuiltImage w of Some b \<Rightarrow> Some b | None \<Rightarrow> cache w)"
proof (cases "validBody (fetchStatic ''/lexicon.sqlite'' w)")
  case (Some b)
  then have "prebuiltImage w = Some b" by (simp add: prebuiltImage_def)
  then show ?thesis
    using tryPrebuilt_load[OF Some, of "[''/prebuilt/lexicon.sqlite'']" s] by (simp add: tryPaths_def)
next
  case None
  from tryPrebuilt_skip[OF None, of "[''/prebuilt/lexicon.sqlite'']" s] obtain w1 where
    t1: "tryPrebuilt tryPaths s w = tryPrebuilt [''/prebuilt/lexicon.sqlite''] s w1"
    and f1: "static w1 = static w" "server_up w1 = server_up w" "set (console w) \<subseteq> set (console w1)"
      "cache w1 = cache w"
    by (auto simp: tryPaths_def)
  have p: "prebuiltImage w = validBody (fetchStatic ''/prebuilt/lexicon.sqlite'' w1)"
    using None fetchStatic_cong[OF f1(1)] by (simp add: prebuiltImage_def)
  show ?thesis
  proof (cases "validBody (fetchStatic ''/prebuilt/lexicon.sqlite'' w1)")
    case None
    from tryPrebuilt_skip[OF None, of "[]" s] obtain w2 where
      "tryPrebuilt [''/prebuilt/lexicon.sqlite''] s w1 = (False, s, w2)"
      "static w2 = static w1" "server_up w2 = server_up w1" "set (console w1) \<subseteq> set (console w2)"
      "cache w2 = cache w1"
      by auto
    then show ?thesis using t1 f1 p None by auto
  next
    case (Some b)
    from tryPrebuilt_load[OF Some, of "[]" s] obtain w2 where
      "tryPrebuilt [''/prebuilt/lexicon.sqlite''] s w1 =
         (True, (openDatabase b s)\<lparr>loadSource := Some PrebuiltFile\<rparr>, w2)"
      "static w2 = static w1" "server_up w2 = server_up w1" "set (console w1) \<subseteq> set (console w2)"
      "cache w2 = Some b"
      by auto
    then show ?thesis using t1 f1 p Some by auto
  qed
qed

lemma fileStep_result:
  assumes "db s = None"
  shows "\<exists>w'. fileStep s w =
           (None,
            (case prebuiltImage w of
               Some b \<Rightarrow> (openDatabase b s)\<lparr>loadSource := Some PrebuiltFile\<rparr>
             | None \<Rightarrow> (openDatabase freshImage s)\<lparr>loadSource := Some Fresh\<rparr>),
            w') \<and>
         static w' = static w \<and> server_up w' = server_up w \<and>
         set (console w) \<subseteq> set (console w') \<and>
         cache w' = (case prebuiltImage w of Some b \<Rightarrow> Some b | None \<Rightarrow> cache w)"
proof -
  from tryPrebuilt_result[of s w] obtain w1 where
    t: "tryPrebuilt tryPaths s w =
          (prebuiltImage w \<noteq> None,
           (case prebuiltImage w of
              Some b \<Rightarrow> (openDatabase b s)\<lparr>loadSource := Some PrebuiltFile\<rparr>
            | None \<Rightarrow> s),
           w1)"
    and f1: "static w1 = static w" "server_up w1 = server_up w" "set (console w) \<subseteq> set (console w1)"
      "cache w1 = (case prebuiltImage w of Some b \<Rightarrow> Some b | None \<Rightarrow> cache w)"
    by blast
  show ?thesis
  proof (cases "prebuiltImage w")
    case None
    from createFresh_result[of s w1] obtain w2 where
      c: "createFresh s w1 = (None, (openDatabase freshImage s)\<lparr>loadSource := Some Fresh\<rparr>, w2)"
      and f2: "static w2 = static w1" "server_up w2 = server_up w1" "set (console w1) \<subseteq> set (console w2)"
        "cache w2 = cache w1"
      by blast
    show ?thesis using assms t None c f1 f2 by (auto simp: fileStep_def)
  next
    case (Some b)
    then show ?thesis using assms t f1 by (simp add: fileStep_def)
  qed
qed

lemma andThen_None: "andThen (None, s, w) f = f s w"
  by (simp add: andThen_def)

lemma andThen_Some: "andThen (Some e, s, w) f = (Some e, s, w)"
  by (simp add: andThen_def)

lemma cacheStep_skip: "db s = Some img \<Longrightarrow> cacheStep s w = (None, s, w)"
  by (simp add: cacheStep_def)

lemma fileStep_skip: "db s = Some img \<Longrightarrow> fileStep s w = (None, s, w)"
  by (simp add: fileStep_def)

lemma prebuiltImage_cong: "static w1 = static w \<Longrightarrow> prebuiltImage w1 = prebuiltImage w"
  by (simp add: prebuiltImage_def fetchStatic_def split: option.splits cong: option.case_cong)

lemma select_result:
  assumes "db s = None" and "SQL s"
  shows "\<exists>w'. andThen (andThen (serverStep s w) cacheStep) fileStep =
           (None,
            (case startImage w of
               (src, img) \<Rightarrow>
                 (openDatabase img (s\<lparr>serverAvailable := server_up w\<rparr>))\<lparr>loadSource := Some src\<rparr>),
            w') \<and>
         static w' = static w \<and> server_up w' = server_up w \<and>
         set (console w) \<subseteq> set (console w') \<and>
         cache w' =
           (case startImage w of
              (Server, img) \<Rightarrow> cache w
            | (PrebuiltFile, img) \<Rightarrow> Some img
            | (src, img) \<Rightarrow> validOnly (cache w)) \<and>
         (serverImage w = None \<and> cache w \<noteq> None \<and> \<not> isSqliteFile (cache w) \<longrightarrow>
            (Warn, ''Stored sqlite binary is invalid. Clearing cache.'') \<in> set (console w'))"
proof -
  let ?s1 = "s\<lparr>serverAvailable := server_up w\<rparr>"
  from serverStep_result[OF assms(2), of w] obtain w1 where
    st: "serverStep s w =
           (None,
            (case serverImage w of
               Some b \<Rightarrow> (openDatabase b ?s1)\<lparr>loadSource := Some Server\<rparr>
             | None \<Rightarrow> ?s1),
            w1)"
    and f1: "static w1 = static w" "cache w1 = cache w" "server_up w1 = server_up w"
      "set (console w) \<subseteq> set (console w1)"
    by blast
  show ?thesis
  proof (cases "serverImage w")
    case (Some b)
    let ?S = "(openDatabase b ?s1)\<lparr>loadSource := Some Server\<rparr>"
    have "db ?S = Some b" by (simp add: openDatabase_def)
    then have "andThen (andThen (serverStep s w) cacheStep) fileStep = (None, ?S, w1)"
      using st Some by (simp add: andThen_None cacheStep_skip fileStep_skip)
    then show ?thesis using Some f1 by (simp add: startImage_def)
  next
    case None
    have d1: "db ?s1 = None" using assms(1) by simp
    from cacheStep_result[OF d1, of w1] obtain w2 ls where
      ct: "cacheStep ?s1 w1 =
             (None,
              (case validOnly (cache w1) of
                 Some c \<Rightarrow> (openDatabase c ?s1)\<lparr>loadSource := Some IndexedDB\<rparr>
               | None \<Rightarrow> ?s1\<lparr>loadSource := ls\<rparr>),
              w2)"
      and f2: "static w2 = static w1" "server_up w2 = server_up w1"
        "set (console w1) \<subseteq> set (console w2)"
        "cache w2 = validOnly (cache w1)"
        "cache w1 \<noteq> None \<and> \<not> isSqliteFile (cache w1) \<longrightarrow>
           (Warn, ''Stored sqlite binary is invalid. Clearing cache.'') \<in> set (console w2)"
      by blast
    show ?thesis
    proof (cases "validOnly (cache w)")
      case (Some c)
      let ?S = "(openDatabase c ?s1)\<lparr>loadSource := Some IndexedDB\<rparr>"
      have "db ?S = Some c" by (simp add: openDatabase_def)
      then have "andThen (andThen (serverStep s w) cacheStep) fileStep = (None, ?S, w2)"
        using st \<open>serverImage w = None\<close> ct Some f1 by (simp add: andThen_None fileStep_skip)
      then show ?thesis using \<open>serverImage w = None\<close> Some f1 f2
        by (auto simp: startImage_def validOnly_def split: if_splits)
    next
      case nocache: None
      let ?s2 = "?s1\<lparr>loadSource := ls\<rparr>"
      have d2: "db ?s2 = None" using assms(1) by simp
      from fileStep_result[OF d2, of w2] obtain w3 where
        ft: "fileStep ?s2 w2 =
               (None,
                (case prebuiltImage w2 of
                   Some b \<Rightarrow> (openDatabase b ?s2)\<lparr>loadSource := Some PrebuiltFile\<rparr>
                 | None \<Rightarrow> (openDatabase freshImage ?s2)\<lparr>loadSource := Some Fresh\<rparr>),
                w3)"
        and f3: "static w3 = static w2" "server_up w3 = server_up w2"
          "set (console w2) \<subseteq> set (console w3)"
          "cache w3 = (case prebuiltImage w2 of Some b \<Rightarrow> Some b | None \<Rightarrow> cache w2)"
        by blast
      have pb: "prebuiltImage w2 = prebuiltImage w"
        using f1 f2 by (intro prebuiltImage_cong) simp
      have all: "andThen (andThen (serverStep s w) cacheStep) fileStep =
          (None,
           (case prebuiltImage w of
              Some b \<Rightarrow> (openDatabase b ?s2)\<lparr>loadSource := Some PrebuiltFile\<rparr>
            | None \<Rightarrow> (openDatabase freshImage ?s2)\<lparr>loadSource := Some Fresh\<rparr>),
           w3)"
        using st \<open>serverImage w = None\<close> ct nocache f1 ft pb by (simp add: andThen_None)
      show ?thesis
        using all \<open>serverImage w = None\<close> nocache f1 f2 f3 pb
        by (cases "prebuiltImage w") (auto simp: startImage_def openDatabase_def)
    qed
  qed
qed

lemma ensureColumn_refusal:
  assumes "db s = Some img" and "refusal c img = Some e"
  shows "ensureColumn c def s = Inl e"
  using assms
  by (auto simp: ensureColumn_def pragma_table_info_def alter_table_add_column_def refusal_def
      columnNames_def split: image.splits option.splits if_splits)

lemma ensureColumn_withColumn:
  assumes "db s = Some img" and "refusal c img = None"
  shows "\<exists>changed. ensureColumn c def s = Inr (changed, s\<lparr>db := Some (withColumn c def img)\<rparr>)"
proof -
  have same: "s\<lparr>db := Some img\<rparr> = s" using assms(1) by (cases s) auto
  obtain d where img: "img = Sqlite d" using assms(2) by (cases img) (simp_all add: refusal_def)
  show ?thesis
  proof (cases "entries d")
    case None
    then show ?thesis using assms(1) same img
      by (auto simp: ensureColumn_def pragma_table_info_def withColumn_def)
  next
    case (Some t)
    show ?thesis
    proof (cases "columns t = [] \<or> c \<in> set (columnNames t)")
      case True
      then have "columns t = [] \<or> sqlColumn t c \<noteq> None" by (auto simp: sqlColumn_exact)
      then show ?thesis using assms(1) same img Some True
        by (auto simp: ensureColumn_def pragma_table_info_def withColumn_def columnNames_def)
    next
      case False
      then have "sqlColumn t c = None" "\<not> maxColumns \<le> length (columns t)"
        using assms(2) img Some by (auto simp: refusal_def split: if_splits)
      then show ?thesis using assms(1) img Some False
        by (auto simp: ensureColumn_def pragma_table_info_def alter_table_add_column_def
            withColumn_def columnNames_def)
    qed
  qed
qed

lemma withColumn_Sqlite: "\<exists>d'. withColumn c def (Sqlite d) = Sqlite d'"
  by (auto simp: withColumn_def split: option.splits)

lemma migrated_Sqlite: "\<exists>d'. migrated (Sqlite d) = Sqlite d'"
proof -
  obtain d1 where "withColumn ''isRoot'' (IntegerAffinity, Integer 0) (Sqlite d) = Sqlite d1"
    using withColumn_Sqlite by blast
  moreover obtain d2 where "withColumn ''strongsNumbers'' (TextAffinity, Text []) (Sqlite d1) = Sqlite d2"
    using withColumn_Sqlite by blast
  ultimately show ?thesis by (simp add: migrated_def migration_def Let_def split: option.splits)
qed

lemma migrateStep_result:
  assumes "db s = Some img"
  shows "\<exists>w'. migrateStep s w = (fst (migration img), s\<lparr>db := Some (migrated img)\<rparr>, w') \<and>
         static w' = static w \<and> server_up w' = server_up w \<and>
         set (console w) \<subseteq> set (console w') \<and>
         (cache w' = cache w \<or> cache w' = Some (migrated img))"
proof (cases "refusal ''isRoot'' img")
  case (Some e)
  have "s\<lparr>db := Some img\<rparr> = s" using assms by (cases s) auto
  moreover have "ensureIsRootColumn s = Inl e"
    using assms Some by (simp add: ensureIsRootColumn_def ensureColumn_refusal)
  ultimately show ?thesis using assms Some
    by (simp add: migrateStep_def migrated_def migration_def)
next
  case None
  let ?img1 = "withColumn ''isRoot'' (IntegerAffinity, Integer 0) img"
  let ?s1 = "s\<lparr>db := Some ?img1\<rparr>"
  from ensureColumn_withColumn[OF assms None, of "(IntegerAffinity, Integer 0)"] obtain c1 where
    e1: "ensureIsRootColumn s = Inr (c1, ?s1)"
    by (auto simp: ensureIsRootColumn_def)
  have db1: "db ?s1 = Some ?img1" by simp
  show ?thesis
  proof (cases "refusal ''strongsNumbers'' ?img1")
    case (Some e)
    then have "ensureStrongsColumn ?s1 = Inl e"
      using db1 by (simp add: ensureStrongsColumn_def ensureColumn_refusal)
    then show ?thesis using assms None Some e1
      by (simp add: migrateStep_def migrated_def migration_def)
  next
    case ok: None
    let ?s2 = "s\<lparr>db := Some (migrated img)\<rparr>"
    have mg: "migrated img = withColumn ''strongsNumbers'' (TextAffinity, Text []) ?img1"
      using None ok by (simp add: migrated_def migration_def)
    from ensureColumn_withColumn[OF db1 ok, of "(TextAffinity, Text [])"] obtain c2 where
      e2: "ensureStrongsColumn ?s1 = Inr (c2, ?s2)"
      using mg by (auto simp: ensureStrongsColumn_def)
    have m: "migrateStep s w = (None, ?s2, if c1 \<or> c2 then save ?s2 w else w)"
      using assms e1 e2 by (simp add: migrateStep_def)
    have f: "fst (migration img) = None"
      using None ok by (simp add: migration_def)
    have "cache (save ?s2 w) = Some (migrated img)" by (rule save_cache) simp
    then show ?thesis using m f save_frame[of ?s2 w] by auto
  qed
qed

lemma strongsStep_result:
  assumes "SQL s"
  shows "\<exists>w'. strongsStep s w =
           (None,
            s\<lparr>strongsDb :=
                (case strongsDb s of
                   Some loaded \<Rightarrow> Some loaded
                 | None \<Rightarrow> validBody (fetchStatic ''/strongs.sqlite'' w))\<rparr>,
            w') \<and>
         cache w' = cache w \<and> set (console w) \<subseteq> set (console w')"
proof -
  have "s\<lparr>strongsDb := strongsDb s\<rparr> = s" by simp
  then have k: "\<And>x. strongsDb s = x \<Longrightarrow> s\<lparr>strongsDb := x\<rparr> = s" by auto
  show ?thesis using assms
    by (cases "fetchStatic ''/strongs.sqlite'' w")
       (auto simp: strongsStep_def loadStrongNumbersDb_def validBody_def logMsg_frame k
          split: option.splits)
qed

lemma init_result:
  assumes "db s = None" and "\<not> isReady s"
  shows "(fst (init s w), fst (snd (init s w))) = expectedStart s w"
proof (cases "sqljs_loads w")
  case False
  then show ?thesis using assms(2)
    by (simp add: init_def loadSqlJs_def andThen_Some expectedStart_def)
next
  case True
  let ?s0 = "s\<lparr>SQL := True\<rparr>"
  obtain src img where si: "startImage w = (src, img)" by (cases "startImage w")
  let ?S = "(openDatabase img (?s0\<lparr>serverAvailable := server_up w\<rparr>))\<lparr>loadSource := Some src\<rparr>"
  have l: "loadSqlJs s w = (None, ?s0, w)" using True by (simp add: loadSqlJs_def)
  from select_result[of ?s0 w] assms(1) si obtain w1 where
    sel: "andThen (andThen (serverStep ?s0 w) cacheStep) fileStep = (None, ?S, w1)"
    and f1: "static w1 = static w"
    by auto
  have dS: "db ?S = Some img" by (simp add: openDatabase_def)
  from migrateStep_result[OF dS, of w1] obtain w2 where
    mig: "migrateStep ?S w1 = (fst (migration img), ?S\<lparr>db := Some (migrated img)\<rparr>, w2)"
    and f2: "static w2 = static w1"
    by blast
  let ?M = "?S\<lparr>db := Some (migrated img)\<rparr>"
  have chain: "andThen (andThen (andThen (andThen (loadSqlJs s w) serverStep) cacheStep) fileStep)
                 migrateStep = migrateStep ?S w1"
    using l sel by (simp add: andThen_None)
  show ?thesis
  proof (cases "fst (migration img)")
    case (Some e)
    then have "init s w = (Some e, ?M, logMsg Error ''DatabaseService init error:'' w2)"
      using assms(2) chain mig by (simp add: init_def andThen_Some)
    then show ?thesis using True si Some
      by (cases s) (simp add: expectedStart_def openDatabase_def)
  next
    case None
    have "SQL ?M" by (simp add: openDatabase_def)
    from strongsStep_result[OF this, of w2] obtain w3 where
      str: "strongsStep ?M w2 =
             (None,
              ?M\<lparr>strongsDb :=
                    (case strongsDb ?M of
                       Some loaded \<Rightarrow> Some loaded
                     | None \<Rightarrow> validBody (fetchStatic ''/strongs.sqlite'' w2))\<rparr>,
              w3)"
      by blast
    have fs: "fetchStatic ''/strongs.sqlite'' w2 = fetchStatic ''/strongs.sqlite'' w"
      using f1 f2 by (intro fetchStatic_cong) simp
    have "init s w =
        (None,
         ?M\<lparr>strongsDb :=
               (case strongsDb ?M of
                  Some loaded \<Rightarrow> Some loaded
                | None \<Rightarrow> validBody (fetchStatic ''/strongs.sqlite'' w2)),
             isReady := True\<rparr>,
         w3)"
      using assms(2) chain mig None str by (simp add: init_def andThen_None)
    then show ?thesis using True si None fs
      by (cases s) (simp add: expectedStart_def openDatabase_def cong: option.case_cong)
  qed
qed

lemma init_world:
  assumes "db s = None" and "\<not> isReady s" and "sqljs_loads w" and "startImage w = (src, img)"
  shows "(cache (snd (snd (init s w))) = Some (migrated img) \<or>
          cache (snd (snd (init s w))) =
            (case src of Server \<Rightarrow> cache w | PrebuiltFile \<Rightarrow> Some img | _ \<Rightarrow> validOnly (cache w))) \<and>
         (serverImage w = None \<and> cache w \<noteq> None \<and> \<not> isSqliteFile (cache w) \<longrightarrow>
            (Warn, ''Stored sqlite binary is invalid. Clearing cache.'')
              \<in> set (console (snd (snd (init s w)))))"
proof -
  let ?msg = "(Warn, ''Stored sqlite binary is invalid. Clearing cache.'')"
  let ?bad = "serverImage w = None \<and> cache w \<noteq> None \<and> \<not> isSqliteFile (cache w)"
  let ?c = "case src of Server \<Rightarrow> cache w | PrebuiltFile \<Rightarrow> Some img | _ \<Rightarrow> validOnly (cache w)"
  let ?s0 = "s\<lparr>SQL := True\<rparr>"
  let ?S = "(openDatabase img (?s0\<lparr>serverAvailable := server_up w\<rparr>))\<lparr>loadSource := Some src\<rparr>"
  let ?M = "?S\<lparr>db := Some (migrated img)\<rparr>"
  have l: "loadSqlJs s w = (None, ?s0, w)" using assms(3) by (simp add: loadSqlJs_def)
  from select_result[of ?s0 w] assms(1,4) obtain w1 where
    sel: "andThen (andThen (serverStep ?s0 w) cacheStep) fileStep = (None, ?S, w1)"
    and c1: "cache w1 = ?c"
    and m1: "?bad \<longrightarrow> ?msg \<in> set (console w1)"
    by (auto split: load_source.splits)
  have dS: "db ?S = Some img" by (simp add: openDatabase_def)
  from migrateStep_result[OF dS, of w1] obtain w2 where
    mig: "migrateStep ?S w1 = (fst (migration img), ?M, w2)"
    and c2: "cache w2 = cache w1 \<or> cache w2 = Some (migrated img)"
    and m2: "set (console w1) \<subseteq> set (console w2)"
    by blast
  have chain: "andThen (andThen (andThen (andThen (loadSqlJs s w) serverStep) cacheStep) fileStep)
                 migrateStep = migrateStep ?S w1"
    using l sel by (simp add: andThen_None)
  show ?thesis
  proof (cases "fst (migration img)")
    case (Some e)
    then have "init s w = (Some e, ?M, logMsg Error ''DatabaseService init error:'' w2)"
      using assms(2) chain mig by (simp add: init_def andThen_Some)
    then show ?thesis using c1 c2 m1 m2 by (auto simp: logMsg_frame)
  next
    case None
    have "SQL ?M" by (simp add: openDatabase_def)
    from strongsStep_result[OF this, of w2] obtain S3 w3 where
      str: "strongsStep ?M w2 = (None, S3, w3)"
      and c3: "cache w3 = cache w2" and m3: "set (console w2) \<subseteq> set (console w3)"
      by blast
    have "init s w = (None, S3\<lparr>isReady := True\<rparr>, w3)"
      using assms(2) chain mig None str by (simp add: init_def andThen_None)
    then show ?thesis using c1 c2 c3 m1 m2 m3 by auto
  qed
qed

lemma isSqliteFile_Sqlite: "isSqliteFile (Some (Sqlite d))"
  by (simp add: isSqliteFile_def SQLITE_HEADER_def)

lemma validOnly_idem: "validOnly (validOnly b) = validOnly b"
  by (simp add: validOnly_def isSqliteFile_def)

lemma validOnly_Some: "validOnly b = Some img \<Longrightarrow> b = Some img \<and> isSqliteFile (Some img)"
  by (auto simp: validOnly_def split: if_splits)

lemma validBody_Some: "validBody r = Some img \<Longrightarrow> isSqliteFile (Some img)"
  by (auto simp: validBody_def split: fetch_result.splits if_splits)

lemma validBody_scrub: "validBody (scrubResponse r) = validBody r"
  by (auto simp: validBody_def scrubResponse_def split: fetch_result.splits)

lemma fetchStatic_withoutInvalid:
  "fetchStatic p (withoutInvalid w) = scrubResponse (fetchStatic p w)"
  by (simp add: fetchStatic_def withoutInvalid_def map_of_map scrubResponse_def
      split: option.splits)

lemma startImage_valid: "startImage w = (src, img) \<Longrightarrow> isSqliteFile (Some img)"
  by (auto simp: startImage_def serverImage_def prebuiltImage_def freshImage_def
      isSqliteFile_Sqlite
      dest: validOnly_Some validBody_Some split: option.splits if_splits)

lemma migrated_valid: "isSqliteFile (Some img) \<Longrightarrow> isSqliteFile (Some (migrated img))"
proof (cases img)
  case (Raw bs)
  assume "isSqliteFile (Some img)"
  then show ?thesis using Raw by (simp add: migrated_def migration_def refusal_def)
next
  case (Sqlite d)
  then show ?thesis using migrated_Sqlite[of d] by (auto simp: isSqliteFile_Sqlite)
qed

lemma startImage_withoutInvalid: "startImage (withoutInvalid w) = startImage w"
proof -
  have s: "serverImage (withoutInvalid w) = serverImage w"
    by (simp add: serverImage_def withoutInvalid_def validOnly_idem)
  have c: "validOnly (cache (withoutInvalid w)) = validOnly (cache w)"
    by (simp add: withoutInvalid_def validOnly_idem)
  have p: "prebuiltImage (withoutInvalid w) = prebuiltImage w"
    by (simp add: prebuiltImage_def fetchStatic_withoutInvalid validBody_scrub
        cong: option.case_cong)
  show ?thesis by (simp add: startImage_def s c p cong: option.case_cong)
qed

lemma expectedStart_withoutInvalid: "expectedStart s (withoutInvalid w) = expectedStart s w"
proof -
  have a: "sqljs_loads (withoutInvalid w) = sqljs_loads w" "server_up (withoutInvalid w) = server_up w"
    by (simp_all add: withoutInvalid_def)
  show ?thesis
    by (simp add: expectedStart_def a startImage_withoutInvalid fetchStatic_withoutInvalid
        validBody_scrub Let_def
        cong: option.case_cong prod.case_cong image.case_cong)
qed

lemma expectedStart_db:
  "sqljs_loads w \<Longrightarrow> startImage w = (src, img) \<Longrightarrow>
   db (snd (expectedStart s w)) = Some (migrated img) \<and>
   loadSource (snd (expectedStart s w)) = Some src \<and>
   serverAvailable (snd (expectedStart s w)) = server_up w \<and>
   fst (expectedStart s w) = fst (migration img)"
  by (simp add: expectedStart_def Let_def split: option.splits)


lemmas start_defs =
  expectedStart_def startImage_def serverImage_def validOnly_def prebuiltImage_def validBody_def
  fetchStatic_def isSqliteFile_def SQLITE_HEADER_def migrated_def migration_def refusal_def
  withColumn_def sqlColumn_def sameName_def maxColumns_def columnNames_def freshImage_def

lemmas world_defs =
  crowdedWorld_def junkWorld_def sampleWorld_def sampleDatabase_def prebuiltDatabase_def
  legacyDatabase_def legacyTable_def initialService_def freshTable_def schemaColumns_def

text \<open>
  Claim C3. A start-up of a service that is not ready and has no engine, with sql.js
  loaded, a server that answers and whose file passes the header check: the load source
  is \<open>Server\<close> and the engine holds the server's image as the migration leaves it,
  with the two columns added where they were missing. This holds whatever the cache and
  the web root hold: they do not occur in the result, and when the start-up ends the
  cache is as it was, or holds the migrated image of the server if a migration was saved.
\<close>

theorem server_image_has_priority:
  assumes "db s = None" and "\<not> isReady s" and "sqljs_loads w"
    and "server_up w" and "server_file w = Some b" and "isSqliteFile (Some b)"
  shows "loadSource (fst (snd (init s w))) = Some Server \<and>
         db (fst (snd (init s w))) = Some (migrated b) \<and>
         (cache (snd (snd (init s w))) = cache w \<or>
          cache (snd (snd (init s w))) = Some (migrated b))"
proof -
  have si: "startImage w = (Server, b)"
    using assms(4-6) by (simp add: startImage_def serverImage_def validOnly_def)
  have "fst (snd (init s w)) = snd (expectedStart s w)"
    using init_result[OF assms(1,2), of w] by (metis snd_conv)
  then show ?thesis
    using expectedStart_db[OF assms(3) si, of s] init_world[OF assms(1-3) si] by auto
qed


text \<open>
  The server holds the legacy store, the cache and the web root hold valid images of
  their own: the engine is opened on the legacy store, which gains its two columns.
\<close>

theorem server_image_has_priority_witness:
  "db initialService = None \<and> \<not> isReady initialService \<and> sqljs_loads crowdedWorld \<and>
   server_up crowdedWorld \<and> server_file crowdedWorld = Some (Sqlite legacyDatabase) \<and>
   isSqliteFile (Some (Sqlite legacyDatabase)) \<and>
   isSqliteFile (cache crowdedWorld) \<and> prebuiltImage crowdedWorld = Some prebuiltDatabase \<and>
   loadSource (fst (snd (init initialService crowdedWorld))) = Some Server \<and>
   db (fst (snd (init initialService crowdedWorld))) = Some (migrated (Sqlite legacyDatabase)) \<and>
   migrated (Sqlite legacyDatabase) =
     Sqlite \<lparr>entries =
               Some (legacyTable\<lparr>columns := columns legacyTable @
                                     [(''isRoot'', IntegerAffinity, Integer 0),
                                      (''strongsNumbers'', TextAffinity, Text [])],
                                   rows := map (\<lambda>r. r @ [Integer 0, Text []]) (rows legacyTable)\<rparr>),
             strongs = None\<rparr> \<and>
   (cache (snd (snd (init initialService crowdedWorld))) = cache crowdedWorld \<or>
    cache (snd (snd (init initialService crowdedWorld))) = Some (migrated (Sqlite legacyDatabase)))"
proof -
  have a: "db initialService = None" "\<not> isReady initialService"
    by (simp_all add: initialService_def)
  have b: "sqljs_loads crowdedWorld" "server_up crowdedWorld"
    "server_file crowdedWorld = Some (Sqlite legacyDatabase)"
    by (simp_all add: world_defs)
  have c: "isSqliteFile (Some (Sqlite legacyDatabase))" by (rule isSqliteFile_Sqlite)
  have d: "isSqliteFile (cache crowdedWorld)" "prebuiltImage crowdedWorld = Some prebuiltDatabase"
    by (simp_all add: world_defs start_defs)
  have m: "migrated (Sqlite legacyDatabase) =
     Sqlite \<lparr>entries =
               Some (legacyTable\<lparr>columns := columns legacyTable @
                                     [(''isRoot'', IntegerAffinity, Integer 0),
                                      (''strongsNumbers'', TextAffinity, Text [])],
                                   rows := map (\<lambda>r. r @ [Integer 0, Text []]) (rows legacyTable)\<rparr>),
             strongs = None\<rparr>"
    by (simp add: world_defs start_defs)
  from server_image_has_priority[OF a b c] a b c d m show ?thesis by blast
qed

text \<open>
  Claim C4. A start-up of a service that is not ready and has no engine ends with the
  same exception, if any, and the same service (the engine that is opened, the load
  source, the readiness) as the start-up in the environment in which every blob that
  fails the header check is absent: the server has no file, the cache is empty, the web
  root does not serve the path. Whatever engine is opened passed the header check. And if
  sql.js is loaded, the server supplies no valid image and the cache holds a blob that
  fails the check, then the warning about the invalid cache is on the console and the
  cache no longer holds that blob when the start-up ends.
\<close>

theorem invalid_blobs_are_absent:
  assumes "db s = None" and "\<not> isReady s"
  shows "fst (init s w) = fst (init s (withoutInvalid w)) \<and>
         fst (snd (init s w)) = fst (snd (init s (withoutInvalid w))) \<and>
         (db (fst (snd (init s w))) = None \<or> isSqliteFile (db (fst (snd (init s w))))) \<and>
         (sqljs_loads w \<and> serverImage w = None \<and> cache w \<noteq> None \<and> \<not> isSqliteFile (cache w) \<longrightarrow>
            (Warn, ''Stored sqlite binary is invalid. Clearing cache.'')
              \<in> set (console (snd (snd (init s w)))) \<and>
            cache (snd (snd (init s w))) \<noteq> cache w)"
proof -
  have r1: "(fst (init s w), fst (snd (init s w))) = expectedStart s w"
    using assms by (rule init_result)
  have r2: "(fst (init s (withoutInvalid w)), fst (snd (init s (withoutInvalid w)))) =
            expectedStart s w"
    using init_result[OF assms, of "withoutInvalid w"] by (simp add: expectedStart_withoutInvalid)
  have same: "fst (init s w) = fst (init s (withoutInvalid w))"
    "fst (snd (init s w)) = fst (snd (init s (withoutInvalid w)))"
    using r1 r2 by (metis fst_conv, metis snd_conv)
  obtain src img where si: "startImage w = (src, img)" by (cases "startImage w")
  have v: "isSqliteFile (Some (migrated img))"
    using si by (intro migrated_valid startImage_valid)
  have sv: "fst (snd (init s w)) = snd (expectedStart s w)" using r1 by (metis snd_conv)
  have opened: "db (fst (snd (init s w))) = None \<or> isSqliteFile (db (fst (snd (init s w))))"
  proof (cases "sqljs_loads w")
    case True
    then show ?thesis using sv expectedStart_db[OF True si, of s] v by simp
  next
    case False
    then show ?thesis using sv assms(1) by (simp add: expectedStart_def)
  qed
  have cleared: "sqljs_loads w \<and> serverImage w = None \<and> cache w \<noteq> None \<and> \<not> isSqliteFile (cache w) \<longrightarrow>
            (Warn, ''Stored sqlite binary is invalid. Clearing cache.'')
              \<in> set (console (snd (snd (init s w)))) \<and>
            cache (snd (snd (init s w))) \<noteq> cache w"
  proof
    assume h: "sqljs_loads w \<and> serverImage w = None \<and> cache w \<noteq> None \<and> \<not> isSqliteFile (cache w)"
    then have ns: "src \<noteq> Server" using si by (auto simp: startImage_def split: option.splits)
    have iv: "isSqliteFile (Some img)" using si by (rule startImage_valid)
    have vo: "validOnly (cache w) = None" using h by (simp add: validOnly_def)
    from init_world[OF assms _ si, of ] h
    have c: "cache (snd (snd (init s w))) = Some (migrated img) \<or>
             cache (snd (snd (init s w))) =
               (case src of Server \<Rightarrow> cache w | PrebuiltFile \<Rightarrow> Some img | _ \<Rightarrow> validOnly (cache w))"
      and m: "(Warn, ''Stored sqlite binary is invalid. Clearing cache.'')
              \<in> set (console (snd (snd (init s w))))"
      by auto
    have "cache (snd (snd (init s w))) \<noteq> cache w"
      using c ns iv v vo h by (cases src) auto
    with m show "(Warn, ''Stored sqlite binary is invalid. Clearing cache.'')
              \<in> set (console (snd (snd (init s w)))) \<and>
            cache (snd (snd (init s w))) \<noteq> cache w"
      by simp
  qed
  from same opened cleared show ?thesis by blast
qed

text \<open>
  Every source answers with bytes that are not a database: the start-up ends without an
  exception on a fresh database, as it does when nothing is there at all.
\<close>

theorem invalid_blobs_are_absent_witness:
  "db initialService = None \<and> \<not> isReady initialService \<and>
   sqljs_loads junkWorld \<and> serverImage junkWorld = None \<and> cache junkWorld \<noteq> None \<and>
   \<not> isSqliteFile (cache junkWorld) \<and>
   fst (init initialService junkWorld) = fst (init initialService (withoutInvalid junkWorld)) \<and>
   fst (snd (init initialService junkWorld)) =
     fst (snd (init initialService (withoutInvalid junkWorld))) \<and>
   (Warn, ''Stored sqlite binary is invalid. Clearing cache.'')
     \<in> set (console (snd (snd (init initialService junkWorld)))) \<and>
   cache (snd (snd (init initialService junkWorld))) \<noteq> cache junkWorld \<and>
   cache (withoutInvalid junkWorld) = None \<and> server_file (withoutInvalid junkWorld) = None \<and>
   fst (init initialService junkWorld) = None \<and>
   loadSource (fst (snd (init initialService junkWorld))) = Some Fresh \<and>
   db (fst (snd (init initialService junkWorld))) = Some freshImage"
proof -
  have a: "db initialService = None" "\<not> isReady initialService"
    by (simp_all add: initialService_def)
  have b: "sqljs_loads junkWorld" "serverImage junkWorld = None" "cache junkWorld \<noteq> None"
    "\<not> isSqliteFile (cache junkWorld)"
    by (simp_all add: world_defs start_defs)
  have c: "cache (withoutInvalid junkWorld) = None" "server_file (withoutInvalid junkWorld) = None"
    by (simp_all add: withoutInvalid_def world_defs start_defs)
  have "(fst (init initialService junkWorld), fst (snd (init initialService junkWorld))) =
        expectedStart initialService junkWorld"
    using a by (rule init_result)
  moreover have "fst (expectedStart initialService junkWorld) = None"
    "loadSource (snd (expectedStart initialService junkWorld)) = Some Fresh"
    "db (snd (expectedStart initialService junkWorld)) = Some freshImage"
    by (simp_all add: world_defs start_defs)
  ultimately have d: "fst (init initialService junkWorld) = None"
    "loadSource (fst (snd (init initialService junkWorld))) = Some Fresh"
    "db (fst (snd (init initialService junkWorld))) = Some freshImage"
    by (metis fst_conv, metis snd_conv, metis snd_conv)
  from invalid_blobs_are_absent[OF a, of junkWorld] a b c d show ?thesis by simp
qed

subsection \<open>No transaction stays open\<close>

text \<open>
  The statements about \<open>addEntries\<close> assume that no transaction is open when it is called.
  That is so in the initial state, and every operation of the service keeps it so.
\<close>

lemma initialService_txn: "txn initialService = None"
  by (simp add: initialService_def)

lemma addEntries_keeps_txn:
  assumes "txn s = None"
  shows "txn (fst (snd (addEntries es s w))) = None"
proof (cases "db s")
  case None
  then show ?thesis using assms by (simp add: addEntries_no_db)
next
  case (Some img)
  show ?thesis
  proof (cases "prepare_insert img")
    case (Inl err)
    then show ?thesis using addEntries_fails_prepare[OF assms Some Inl] assms by simp
  next
    case (Inr t)
    show ?thesis
    proof (cases "\<forall>e \<in> set es. complete e")
      case False
      then have "\<exists>e \<in> set es. \<not> complete e" by simp
      then show ?thesis using addEntries_fails[OF assms Some] assms by simp
    next
      case True
      from prepare_insert_Inr[OF Inr] obtain d where
        "img = Sqlite d" "entries d = Some t"
        by blast
      then show ?thesis using addEntries_commits[of s d t es w] assms Some True Inr by simp
    qed
  qed
qed

lemma deleteEntries_keeps_txn: "txn (fst (snd (deleteEntries ids s w))) = txn s"
  by (simp add: deleteEntries_def Let_def split: option.splits sum.splits)

lemma andThen_keeps:
  assumes "P (fst (snd r))" and "\<And>s w. P s \<Longrightarrow> P (fst (snd (f s w)))"
  shows "P (fst (snd (andThen r f)))"
  using assms by (cases r) (auto simp: andThen_def split: option.splits)

lemma ensureColumn_keeps_txn: "ensureColumn c dflt s = Inr (ch, s') \<Longrightarrow> txn s' = txn s"
  by (auto simp: ensureColumn_def split: option.splits sum.splits if_splits)

lemma steps_keep_txn:
  assumes "txn s = None"
  shows "txn (fst (snd (loadSqlJs s w))) = None"
    and "txn (fst (snd (serverStep s w))) = None"
    and "txn (fst (snd (cacheStep s w))) = None"
    and "txn (fst (snd (fileStep s w))) = None"
    and "txn (fst (snd (migrateStep s w))) = None"
    and "txn (fst (snd (strongsStep s w))) = None"
proof -
  show "txn (fst (snd (loadSqlJs s w))) = None" using assms by (simp add: loadSqlJs_def)
  show "txn (fst (snd (serverStep s w))) = None" using assms
    by (auto simp: serverStep_def loadFromServer_def openDatabase_def Let_def
        split: fetch_result.splits)
  show "txn (fst (snd (cacheStep s w))) = None" using assms
    by (auto simp: cacheStep_def openDatabase_def split: option.splits)
  show "txn (fst (snd (fileStep s w))) = None"
  proof (cases "db s")
    case None
    from fileStep_result[OF None, of w] show ?thesis
      by (auto simp: openDatabase_def split: option.splits)
  next
    case (Some img)
    then show ?thesis using assms by (simp add: fileStep_skip)
  qed
  show "txn (fst (snd (migrateStep s w))) = None"
  proof (cases "db s")
    case None
    then show ?thesis using assms by (simp add: migrateStep_def)
  next
    case (Some img)
    from migrateStep_result[OF Some, of w] show ?thesis using assms by auto
  qed
  show "txn (fst (snd (strongsStep s w))) = None" using assms
    by (auto simp: strongsStep_def loadStrongNumbersDb_def
        split: option.splits fetch_result.splits)
qed

lemma init_keeps_txn:
  assumes "txn s = None"
  shows "txn (fst (snd (init s w))) = None"
proof (cases "isReady s")
  case True
  then show ?thesis using assms by (simp add: init_def)
next
  case False
  let ?r = "andThen (andThen (andThen (andThen (andThen (loadSqlJs s w)
                 serverStep) cacheStep) fileStep) migrateStep) strongsStep"
  have "txn (fst (snd ?r)) = None"
    by (intro andThen_keeps[where P = "\<lambda>s. txn s = None"] steps_keep_txn assms)
  then show ?thesis using False by (cases ?r) (auto simp: init_def split: option.splits)
qed

lemma resetDatabase_keeps_txn: "txn (fst (resetDatabase s w)) = txn s"
  by (simp add: resetDatabase_def)

end
